theory Spec2Isabelle
  imports Main
begin

unbundle bit_operations_syntax

section \<open>scandir: a directory iterator and a tree walker\<close>

text \<open>
  The module binds three native directory-enumeration interfaces, one per branch of
  \<^verbatim>\<open>sys.platform\<close>: Win32 (\<^verbatim>\<open>FindFirstFileW\<close>, \<^verbatim>\<open>FindNextFileW\<close>, \<^verbatim>\<open>FindClose\<close>),
  POSIX (\<^verbatim>\<open>opendir\<close>, \<^verbatim>\<open>readdir_r\<close>, \<^verbatim>\<open>closedir\<close>) and a fallback on \<^verbatim>\<open>os.listdir\<close>.
  The operating system is an explicit state that every native call takes and returns.
  Python integers are \<open>int\<close>, strings are \<open>string\<close>, exceptions are values of the type
  \<open>exn\<close>, and the generators are step functions on an explicit generator state.

  Text strings and byte strings are both \<open>string\<close>; the file-system encoding is a pair
  of partial functions between them, given with the operating system.

  Left out: \<^verbatim>\<open>filetime_to_time\<close> with the three timestamps of a status record, which are
  floating-point numbers.
\<close>

subsection \<open>Constants\<close>

definition S_IFDIR :: int where "S_IFDIR = 16384"   \<comment> \<open>\<^verbatim>\<open>stat.S_IFDIR = 0o040000\<close>\<close>
definition S_IFREG :: int where "S_IFREG = 32768"   \<comment> \<open>\<^verbatim>\<open>stat.S_IFREG = 0o100000\<close>\<close>
definition S_IFLNK :: int where "S_IFLNK = 40960"   \<comment> \<open>\<^verbatim>\<open>stat.S_IFLNK = 0o120000\<close>\<close>
definition S_IFMT :: int where "S_IFMT = 61440"     \<comment> \<open>the literal \<^verbatim>\<open>0o170000\<close>\<close>

definition ERROR_FILE_NOT_FOUND :: int where "ERROR_FILE_NOT_FOUND = 2"
definition ERROR_NO_MORE_FILES :: int where "ERROR_NO_MORE_FILES = 18"
definition FILE_ATTRIBUTE_READONLY :: int where "FILE_ATTRIBUTE_READONLY = 1"
definition FILE_ATTRIBUTE_DIRECTORY :: int where "FILE_ATTRIBUTE_DIRECTORY = 16"
definition FILE_ATTRIBUTE_REPARSE_POINT :: int where "FILE_ATTRIBUTE_REPARSE_POINT = 1024"

definition DT_UNKNOWN :: int where "DT_UNKNOWN = 0"
definition DT_DIR :: int where "DT_DIR = 4"
definition DT_REG :: int where "DT_REG = 8"
definition DT_LNK :: int where "DT_LNK = 10"

text \<open>The default of the parameter \<^verbatim>\<open>windows_wildcard\<close> of the Win32 \<^verbatim>\<open>scandir\<close>.\<close>

definition windows_wildcard :: string where "windows_wildcard = ''*.*''"

lemmas consts_defs =
  S_IFDIR_def S_IFREG_def S_IFLNK_def S_IFMT_def ERROR_FILE_NOT_FOUND_def
  ERROR_NO_MORE_FILES_def FILE_ATTRIBUTE_READONLY_def FILE_ATTRIBUTE_DIRECTORY_def
  FILE_ATTRIBUTE_REPARSE_POINT_def DT_UNKNOWN_def DT_DIR_def DT_REG_def DT_LNK_def
  windows_wildcard_def

subsection \<open>Data\<close>

datatype platform = Win32 | Posix | OtherOS

text \<open>The two fields of \<^verbatim>\<open>struct dirent\<close> that the module reads.\<close>

record dirent =
  d_type :: int
  d_name :: string

text \<open>
  \<^verbatim>\<open>WIN32_FIND_DATAW\<close>. The three \<^verbatim>\<open>FILETIME\<close> fields are left out: they only feed the
  floating-point timestamps of the status record, which are left out as well.
\<close>

record find_data =
  dwFileAttributes :: int
  nFileSizeHigh :: int
  nFileSizeLow :: int
  cFileName :: string

text \<open>\<^verbatim>\<open>os.stat_result\<close>, without its timestamps and the fields the module sets to zero.\<close>

record stat_result =
  st_mode :: int
  st_size :: int

text \<open>
  The exceptions: \<^verbatim>\<open>OSError\<close> (and \<^verbatim>\<open>WindowsError\<close>, its subclass) with the native code and
  the file name, \<^verbatim>\<open>NameError\<close> with the name, and \<^verbatim>\<open>UnicodeError\<close>, the class of the errors
  of encoding and decoding, with the string that could not be converted.
\<close>

datatype exn =
    OSError (err_code: int) (filename: string)
  | NameError string
  | UnicodeError string

text \<open>
  One class per platform branch, each with its own slots. The slot \<^verbatim>\<open>_lstat\<close> is
  \<open>lstat_cache\<close>; \<^verbatim>\<open>None\<close> is \<open>None\<close>.
\<close>

datatype DirEntry =
    WinDirEntry (name: string) (lstat_cache: "stat_result option") (find_data_of: find_data)
  | PosixDirEntry (path_of: string) (name: string) (dirent_of: dirent)
      (lstat_cache: "stat_result option")
  | OtherDirEntry (path_of: string) (name: string) (lstat_cache: "stat_result option")

text \<open>The assignment \<^verbatim>\<open>self._lstat = st\<close>.\<close>

fun set_lstat :: "DirEntry \<Rightarrow> stat_result \<Rightarrow> DirEntry" where
  "set_lstat (WinDirEntry n c fd) st = WinDirEntry n (Some st) fd"
| "set_lstat (PosixDirEntry p n d c) st = PosixDirEntry p n d (Some st)"
| "set_lstat (OtherDirEntry p n c) st = OtherDirEntry p n (Some st)"

subsection \<open>The operating system\<close>

text \<open>
  One step of a native enumeration: the next record, or a failure with its native code.
  A stream that has run out of steps reports the end of the directory.
\<close>

datatype 'a step = Data 'a | Fail int

datatype event =
    EvOpen nat      \<comment> \<open>a handle was opened (\<^verbatim>\<open>opendir\<close> or \<^verbatim>\<open>FindFirstFile\<close> succeeded)\<close>
  | EvRead nat      \<comment> \<open>\<^verbatim>\<open>readdir_r\<close> or \<^verbatim>\<open>FindNextFile\<close> on a handle\<close>
  | EvClose nat     \<comment> \<open>\<^verbatim>\<open>closedir\<close> or \<^verbatim>\<open>FindClose\<close> on a handle\<close>
  | EvLstat string  \<comment> \<open>\<^verbatim>\<open>os.lstat\<close> on a path\<close>
  | EvListdir string

text \<open>
  The state of the operating system. The tables say what each native call answers:
  \<open>dir_tab\<close> the directory behind a path as POSIX enumerates it (pseudo-entries
  included) or the \<^verbatim>\<open>errno\<close> of a failing open, \<open>find_tab\<close> the same for a Win32 search
  pattern, \<open>close_tab\<close> the code with which closing a handle fails (0: it succeeds),
  \<open>lstat_tab k p\<close> the answer to \<^verbatim>\<open>os.lstat(p)\<close> when \<open>k\<close> status queries went before
  (so a path can vanish or appear between two queries). Three functions of the Python
  library are given with the system: \<open>fs_encode\<close> is \<^verbatim>\<open>s.encode(file_system_encoding)\<close> and
  \<open>fs_decode\<close> is \<^verbatim>\<open>b.decode(file_system_encoding)\<close>, both strict (\<open>None\<close>: the conversion
  raises), and \<open>ntpath_join\<close> is \<^verbatim>\<open>ntpath.join\<close> of two components, which is what
  \<^verbatim>\<open>os.path.join\<close> is on Win32 (it knows drive letters and both separators). The rest is
  dynamic: the last error code, the handles that are open, and the trace of native
  calls.
\<close>

record os_state =
  platform :: platform
  dir_tab :: "string \<Rightarrow> int + dirent step list"
  find_tab :: "string \<Rightarrow> int + find_data \<times> find_data step list"
  close_tab :: "nat \<Rightarrow> int"
  lstat_tab :: "nat \<Rightarrow> string \<Rightarrow> int + stat_result"
  fs_encode :: "string \<Rightarrow> string option"
  fs_decode :: "string \<Rightarrow> string option"
  ntpath_join :: "string \<Rightarrow> string \<Rightarrow> string"
  errno :: int
  next_handle :: nat
  handles :: "nat list"
  trace :: "event list"

text \<open>A directory stream or search handle: its identity and the steps still to come.\<close>

type_synonym DIR = "nat \<times> dirent step list"
type_synonym HANDLE = "nat \<times> find_data step list"

definition EBADF :: int where "EBADF = 9"

definition record_event :: "event \<Rightarrow> os_state \<Rightarrow> os_state" where
  "record_event ev os = os\<lparr>trace := trace os @ [ev]\<rparr>"

definition open_handle :: "os_state \<Rightarrow> nat \<times> os_state" where
  "open_handle os =
     (let h = next_handle os
      in (h, record_event (EvOpen h)
               (os\<lparr>next_handle := Suc h, handles := h # handles os\<rparr>)))"

text \<open>
  Closing a handle, for \<^verbatim>\<open>closedir\<close> and \<^verbatim>\<open>FindClose\<close>: the native code of the failure,
  0 for success. A handle that is not open is a bad descriptor.
\<close>

definition close_handle :: "nat \<Rightarrow> os_state \<Rightarrow> int \<times> os_state" where
  "close_handle h os =
     (let code = (if h \<in> set (handles os) then close_tab os h else EBADF);
          os' = record_event (EvClose h) (os\<lparr>handles := removeAll h (handles os)\<rparr>)
      in if code = 0 then (0, os') else (code, os'\<lparr>errno := code\<rparr>))"

text \<open>\<^verbatim>\<open>opendir\<close>: \<open>None\<close> is the null pointer, and \<^verbatim>\<open>errno\<close> is set.\<close>

definition opendir :: "string \<Rightarrow> os_state \<Rightarrow> DIR option \<times> os_state" where
  "opendir p os =
     (case dir_tab os p of
        Inl e \<Rightarrow> (None, os\<lparr>errno := e\<rparr>)
      | Inr stream \<Rightarrow> (case open_handle os of (h, os') \<Rightarrow> (Some (h, stream), os')))"

text \<open>
  \<^verbatim>\<open>readdir_r(dir_p, entry, result)\<close>: the return code, \<^verbatim>\<open>result\<close> (\<open>None\<close>: null, with
  the record it points to otherwise) and the advanced stream. A failure returns its
  code, which the C library also leaves in \<^verbatim>\<open>errno\<close>.
\<close>

definition readdir_r :: "DIR \<Rightarrow> os_state \<Rightarrow> (int \<times> dirent option \<times> DIR) \<times> os_state" where
  "readdir_r dir_p os =
     (let os' = record_event (EvRead (fst dir_p)) os
      in case snd dir_p of
           [] \<Rightarrow> ((0, None, dir_p), os')
         | Data entry # rest \<Rightarrow> ((0, Some entry, (fst dir_p, rest)), os')
         | Fail c # rest \<Rightarrow> ((c, None, (fst dir_p, rest)), os'\<lparr>errno := c\<rparr>))"

text \<open>\<^verbatim>\<open>closedir\<close>: 0, or -1 with \<^verbatim>\<open>errno\<close> set.\<close>

definition closedir :: "DIR \<Rightarrow> os_state \<Rightarrow> int \<times> os_state" where
  "closedir dir_p os =
     (case close_handle (fst dir_p) os of (code, os') \<Rightarrow> (if code = 0 then 0 else - 1, os'))"

text \<open>
  \<^verbatim>\<open>FindFirstFile\<close>: \<open>None\<close> is \<^verbatim>\<open>INVALID_HANDLE_VALUE\<close>, with the code left for
  \<^verbatim>\<open>GetLastError\<close>; otherwise the handle and the first record.
\<close>

definition FindFirstFile :: "string \<Rightarrow> os_state \<Rightarrow> (HANDLE \<times> find_data) option \<times> os_state" where
  "FindFirstFile pattern os =
     (case find_tab os pattern of
        Inl e \<Rightarrow> (None, os\<lparr>errno := e\<rparr>)
      | Inr (data, stream) \<Rightarrow>
          (case open_handle os of (h, os') \<Rightarrow> (Some ((h, stream), data), os')))"

text \<open>\<^verbatim>\<open>FindNextFile\<close>: \<open>None\<close> is a false return, with the code left for \<^verbatim>\<open>GetLastError\<close>.\<close>

definition FindNextFile :: "HANDLE \<Rightarrow> os_state \<Rightarrow> (find_data option \<times> HANDLE) \<times> os_state" where
  "FindNextFile handle os =
     (let os' = record_event (EvRead (fst handle)) os
      in case snd handle of
           [] \<Rightarrow> ((None, handle), os'\<lparr>errno := ERROR_NO_MORE_FILES\<rparr>)
         | Data data # rest \<Rightarrow> ((Some data, (fst handle, rest)), os')
         | Fail c # rest \<Rightarrow> ((None, (fst handle, rest)), os'\<lparr>errno := c\<rparr>))"

text \<open>\<^verbatim>\<open>FindClose\<close>: true for success.\<close>

definition FindClose :: "HANDLE \<Rightarrow> os_state \<Rightarrow> bool \<times> os_state" where
  "FindClose handle os =
     (case close_handle (fst handle) os of (code, os') \<Rightarrow> (code = 0, os'))"

text \<open>The number of status queries made so far.\<close>

definition lstat_count :: "os_state \<Rightarrow> nat" where
  "lstat_count os = length (filter (\<lambda>ev. case ev of EvLstat p \<Rightarrow> True | _ \<Rightarrow> False) (trace os))"

text \<open>\<^verbatim>\<open>os.lstat\<close>: the status record, or \<^verbatim>\<open>OSError\<close> with the code and the path.\<close>

definition lstat :: "string \<Rightarrow> os_state \<Rightarrow> (exn + stat_result) \<times> os_state" where
  "lstat p os =
     (case lstat_tab os (lstat_count os) p of
        Inl e \<Rightarrow> (Inl (OSError e p), record_event (EvLstat p) os)
      | Inr st \<Rightarrow> (Inr st, record_event (EvLstat p) os))"

text \<open>
  The names of a stream, up to its first failure: what a full listing of the directory
  reads, pseudo-entries included.
\<close>

fun stream_names :: "dirent step list \<Rightarrow> int + string list" where
  "stream_names [] = Inr []"
| "stream_names (Data entry # rest) =
     (case stream_names rest of Inl c \<Rightarrow> Inl c | Inr ns \<Rightarrow> Inr (d_name entry # ns))"
| "stream_names (Fail c # rest) = Inl c"

text \<open>
  \<^verbatim>\<open>os.listdir\<close> of the Python library, which reads the whole directory and leaves out
  the entries \<^verbatim>\<open>'.'\<close> and \<^verbatim>\<open>'..'\<close>, or raises \<^verbatim>\<open>OSError\<close>. It converts the path and the
  names itself, with an error handler that accepts every name: here the path and the
  names pass as they are.
\<close>

definition listdir :: "string \<Rightarrow> os_state \<Rightarrow> (exn + string list) \<times> os_state" where
  "listdir p os =
     (let os' = record_event (EvListdir p) os
      in case dir_tab os p of
           Inl e \<Rightarrow> (Inl (OSError e p), os')
         | Inr stream \<Rightarrow>
             (case stream_names stream of
                Inl c \<Rightarrow> (Inl (OSError c p), os')
              | Inr ns \<Rightarrow> (Inr (filter (\<lambda>n. n \<notin> {''.'', ''..''}) ns), os')))"

text \<open>
  \<^verbatim>\<open>posixpath.join\<close> of two components, and the module's \<^verbatim>\<open>join\<close>, which is
  \<^verbatim>\<open>os.path.join\<close>: \<^verbatim>\<open>ntpath.join\<close> on Win32, \<^verbatim>\<open>posixpath.join\<close> elsewhere.
\<close>

definition ends_with :: "string \<Rightarrow> string \<Rightarrow> bool" where
  "ends_with s suffix = (length suffix \<le> length s \<and> drop (length s - length suffix) s = suffix)"

definition starts_with :: "string \<Rightarrow> string \<Rightarrow> bool" where
  "starts_with s prefix = (take (length prefix) s = prefix)"

definition posixpath_join :: "string \<Rightarrow> string \<Rightarrow> string" where
  "posixpath_join a b =
     (if starts_with b ''/'' then b
      else if a = [] \<or> ends_with a ''/'' then a @ b
      else a @ ''/'' @ b)"

definition join :: "os_state \<Rightarrow> string \<Rightarrow> string \<Rightarrow> string" where
  "join os a b = (case platform os of Win32 \<Rightarrow> ntpath_join os a b | _ \<Rightarrow> posixpath_join a b)"

subsection \<open>Directory entries\<close>

text \<open>Convert a Win32 find-data record to a status record (timestamps left out).\<close>

definition find_data_to_stat :: "find_data \<Rightarrow> stat_result" where
  "find_data_to_stat data =
     (let attributes = dwFileAttributes data;
          st_mode0 = (0 :: int);
          st_mode1 = (if attributes AND FILE_ATTRIBUTE_DIRECTORY \<noteq> 0
                      then st_mode0 OR (S_IFDIR OR 73) else st_mode0 OR S_IFREG);
          st_mode2 = (if attributes AND FILE_ATTRIBUTE_READONLY \<noteq> 0
                      then st_mode1 OR 292 else st_mode1 OR 438);
          st_mode3 = (if attributes AND FILE_ATTRIBUTE_REPARSE_POINT \<noteq> 0
                      then st_mode2 OR S_IFLNK else st_mode2);
          st_size = push_bit 32 (nFileSizeHigh data) OR nFileSizeLow data
      in \<lparr>st_mode = st_mode3, st_size = st_size\<rparr>)"

text \<open>
  The method \<^verbatim>\<open>lstat\<close> of the three classes: the result or the exception, the entry
  (whose slot \<^verbatim>\<open>_lstat\<close> the call may fill) and the operating system.
\<close>

fun DirEntry_lstat :: "DirEntry \<Rightarrow> os_state \<Rightarrow> (exn + stat_result) \<times> DirEntry \<times> os_state" where
  "DirEntry_lstat (WinDirEntry n c fd) os =
     (case c of
        None \<Rightarrow> (let st = find_data_to_stat fd in (Inr st, WinDirEntry n (Some st) fd, os))
      | Some st \<Rightarrow> (Inr st, WinDirEntry n c fd, os))"
| "DirEntry_lstat (PosixDirEntry p n d c) os =
     (case c of
        None \<Rightarrow>
          (case lstat (join os p n) os of
             (Inl ex, os') \<Rightarrow> (Inl ex, PosixDirEntry p n d c, os')
           | (Inr st, os') \<Rightarrow> (Inr st, PosixDirEntry p n d (Some st), os'))
      | Some st \<Rightarrow> (Inr st, PosixDirEntry p n d c, os))"
| "DirEntry_lstat (OtherDirEntry p n c) os =
     (case c of
        None \<Rightarrow>
          (case lstat (join os p n) os of
             (Inl ex, os') \<Rightarrow> (Inl ex, OtherDirEntry p n c, os')
           | (Inr st, os') \<Rightarrow> (Inr st, OtherDirEntry p n (Some st), os'))
      | Some st \<Rightarrow> (Inr st, OtherDirEntry p n c, os))"

text \<open>
  The tail that the six classification methods of the POSIX and fallback classes share:
  \<^verbatim>\<open>try: self.lstat()\<close>, \<^verbatim>\<open>except OSError: return False\<close>,
  \<^verbatim>\<open>return self._lstat.st_mode & 0o170000 == S_IF...\<close>. After a call of \<^verbatim>\<open>lstat\<close> that
  returns, the slot \<^verbatim>\<open>_lstat\<close> holds the record returned.
\<close>

definition by_lstat :: "int \<Rightarrow> DirEntry \<Rightarrow> os_state \<Rightarrow> bool \<times> DirEntry \<times> os_state" where
  "by_lstat ifmt self os =
     (case DirEntry_lstat self os of
        (Inl ex, self', os') \<Rightarrow> (False, self', os')
      | (Inr st, self', os') \<Rightarrow> (st_mode st AND S_IFMT = ifmt, self', os'))"

fun isdir :: "DirEntry \<Rightarrow> os_state \<Rightarrow> bool \<times> DirEntry \<times> os_state" where
  "isdir (WinDirEntry n c fd) os =
     (dwFileAttributes fd AND FILE_ATTRIBUTE_DIRECTORY \<noteq> 0, WinDirEntry n c fd, os)"
| "isdir (PosixDirEntry p n d c) os =
     (let dt = d_type d
      in if dt \<noteq> DT_UNKNOWN then (dt = DT_DIR, PosixDirEntry p n d c, os)
         else by_lstat S_IFDIR (PosixDirEntry p n d c) os)"
| "isdir (OtherDirEntry p n c) os = by_lstat S_IFDIR (OtherDirEntry p n c) os"

fun isfile :: "DirEntry \<Rightarrow> os_state \<Rightarrow> bool \<times> DirEntry \<times> os_state" where
  "isfile (WinDirEntry n c fd) os =
     (dwFileAttributes fd AND FILE_ATTRIBUTE_DIRECTORY = 0, WinDirEntry n c fd, os)"
| "isfile (PosixDirEntry p n d c) os =
     (let dt = d_type d
      in if dt \<noteq> DT_UNKNOWN then (dt = DT_REG, PosixDirEntry p n d c, os)
         else by_lstat S_IFREG (PosixDirEntry p n d c) os)"
| "isfile (OtherDirEntry p n c) os = by_lstat S_IFREG (OtherDirEntry p n c) os"

fun islink :: "DirEntry \<Rightarrow> os_state \<Rightarrow> bool \<times> DirEntry \<times> os_state" where
  "islink (WinDirEntry n c fd) os =
     (dwFileAttributes fd AND FILE_ATTRIBUTE_REPARSE_POINT \<noteq> 0, WinDirEntry n c fd, os)"
| "islink (PosixDirEntry p n d c) os =
     (let dt = d_type d
      in if dt \<noteq> DT_UNKNOWN then (dt = DT_LNK, PosixDirEntry p n d c, os)
         else by_lstat S_IFLNK (PosixDirEntry p n d c) os)"
| "islink (OtherDirEntry p n c) os = by_lstat S_IFLNK (OtherDirEntry p n c) os"

subsection \<open>The generator \<^verbatim>\<open>scandir\<close>\<close>

definition win_error :: "int \<Rightarrow> string \<Rightarrow> exn" where
  "win_error error fname = OSError error fname"

definition posix_error :: "string \<Rightarrow> os_state \<Rightarrow> exn" where
  "posix_error fname os = OSError (errno os) fname"

text \<open>What a call of \<^verbatim>\<open>next\<close> on a generator gives.\<close>

datatype 'a signal = Yield 'a | StopIteration | Raise exn

text \<open>
  How control leaves the \<^verbatim>\<open>while\<close> loop inside the \<^verbatim>\<open>try\<close> block: at the \<^verbatim>\<open>yield\<close>, with
  the handle kept for the resumption, by \<^verbatim>\<open>break\<close>, or by \<^verbatim>\<open>raise\<close>.
\<close>

datatype 'h loop_exit = LYield DirEntry 'h | LBreak | LRaise exn

text \<open>
  The state of a generator object made by \<^verbatim>\<open>scandir(path)\<close>: not started (no line of
  the body has run), suspended at the \<^verbatim>\<open>yield\<close> of one of the three branches, or finished.
\<close>

datatype scan_gen =
    NotStarted string
  | PosixSuspended string DIR
  | WinSuspended string HANDLE
  | OtherSuspended string "string list"
  | Finished

definition scandir :: "string \<Rightarrow> scan_gen" where
  "scandir p = NotStarted p"

text \<open>
  The POSIX loop, from its head to the next \<^verbatim>\<open>yield\<close>, \<^verbatim>\<open>break\<close> or \<^verbatim>\<open>raise\<close>. The name of a
  record is decoded before it is looked at; a name that does not decode raises.
\<close>

function posix_loop :: "string \<Rightarrow> DIR \<Rightarrow> os_state \<Rightarrow> DIR loop_exit \<times> os_state" where
  "posix_loop p dir_p os =
     (case readdir_r dir_p os of
        ((ret, result, dir_p'), os') \<Rightarrow>
          if ret \<noteq> 0 then (LRaise (posix_error p os'), os')
          else (case result of
                  None \<Rightarrow> (LBreak, os')
                | Some entry \<Rightarrow>
                    (case fs_decode os' (d_name entry) of
                       None \<Rightarrow> (LRaise (UnicodeError (d_name entry)), os')
                     | Some nm \<Rightarrow>
                         if nm \<notin> {''.'', ''..''}
                         then (LYield (PosixDirEntry p nm entry None) dir_p', os')
                         else posix_loop p dir_p' os')))"
  by pat_completeness auto

lemma readdir_r_shorter:
  "readdir_r dir_p os = ((ret, Some entry, dir_p'), os') \<Longrightarrow> length (snd dir_p') < length (snd dir_p)"
  by (auto simp: readdir_r_def Let_def split: list.splits step.splits)

termination posix_loop
  by (relation "measure (\<lambda>(p, dir_p, os). length (snd dir_p))")
     (auto dest: readdir_r_shorter [OF sym])

declare posix_loop.simps [simp del]

text \<open>The \<^verbatim>\<open>finally\<close> clause: an exception raised in it replaces the pending outcome.\<close>

definition posix_finally :: "string \<Rightarrow> DIR \<Rightarrow> DirEntry signal \<Rightarrow> os_state \<Rightarrow> DirEntry signal \<times> os_state" where
  "posix_finally p dir_p pending os =
     (case closedir dir_p os of
        (r, os') \<Rightarrow> if r \<noteq> 0 then (Raise (posix_error p os'), os') else (pending, os'))"

definition posix_resume :: "string \<Rightarrow> DIR \<Rightarrow> os_state \<Rightarrow> (DirEntry signal \<times> scan_gen) \<times> os_state" where
  "posix_resume p dir_p os =
     (case posix_loop p dir_p os of
        (LYield e dir_p', os') \<Rightarrow> ((Yield e, PosixSuspended p dir_p'), os')
      | (LBreak, os') \<Rightarrow>
          (case posix_finally p dir_p StopIteration os' of (sig, os'') \<Rightarrow> ((sig, Finished), os''))
      | (LRaise ex, os') \<Rightarrow>
          (case posix_finally p dir_p (Raise ex) os' of (sig, os'') \<Rightarrow> ((sig, Finished), os'')))"

definition posix_start :: "string \<Rightarrow> os_state \<Rightarrow> (DirEntry signal \<times> scan_gen) \<times> os_state" where
  "posix_start p os =
     (case fs_encode os p of
        None \<Rightarrow> ((Raise (UnicodeError p), Finished), os)
      | Some bytes \<Rightarrow>
          (case opendir bytes os of
             (None, os') \<Rightarrow> ((Raise (posix_error p os'), Finished), os')
           | (Some dir_p, os') \<Rightarrow> posix_resume p dir_p os'))"

text \<open>
  The Win32 loop. Its body yields the current record first and then asks for the next:
  \<open>Some data\<close> is the head of the body with a record to look at, \<open>None\<close> is the point
  after the \<^verbatim>\<open>yield\<close>, where a resumed generator continues with \<^verbatim>\<open>FindNextFile\<close>.
\<close>

function win_loop :: "string \<Rightarrow> HANDLE \<Rightarrow> find_data option \<Rightarrow> os_state \<Rightarrow> HANDLE loop_exit \<times> os_state" where
  "win_loop p handle cur os =
     (case cur of
        Some data \<Rightarrow>
          (let nm = cFileName data
           in if nm \<notin> {''.'', ''..''}
              then (LYield (WinDirEntry nm None data) handle, os)
              else win_loop p handle None os)
      | None \<Rightarrow>
          (case FindNextFile handle os of
             ((None, handle'), os') \<Rightarrow>
               (let error = errno os'
                in if error = ERROR_NO_MORE_FILES then (LBreak, os')
                   else (LRaise (win_error error p), os'))
           | ((Some data, handle'), os') \<Rightarrow> win_loop p handle' (Some data) os'))"
  by pat_completeness auto

lemma FindNextFile_shorter:
  "FindNextFile handle os = ((Some data, handle'), os') \<Longrightarrow>
   length (snd handle') < length (snd handle)"
  by (auto simp: FindNextFile_def Let_def split: list.splits step.splits)

termination win_loop
  by (relation "measure (\<lambda>(p, handle, cur, os).
        2 * length (snd handle) + (case cur of None \<Rightarrow> 0 | Some d \<Rightarrow> 1))")
     (auto dest: FindNextFile_shorter [OF sym])

declare win_loop.simps [simp del]

definition win_finally :: "string \<Rightarrow> HANDLE \<Rightarrow> DirEntry signal \<Rightarrow> os_state \<Rightarrow> DirEntry signal \<times> os_state" where
  "win_finally p handle pending os =
     (case FindClose handle os of
        (ok, os') \<Rightarrow> if \<not> ok then (Raise (win_error (errno os') p), os') else (pending, os'))"

definition win_resume :: "string \<Rightarrow> HANDLE \<Rightarrow> find_data option \<Rightarrow> os_state \<Rightarrow> (DirEntry signal \<times> scan_gen) \<times> os_state" where
  "win_resume p handle cur os =
     (case win_loop p handle cur os of
        (LYield e handle', os') \<Rightarrow> ((Yield e, WinSuspended p handle'), os')
      | (LBreak, os') \<Rightarrow>
          (case win_finally p handle StopIteration os' of (sig, os'') \<Rightarrow> ((sig, Finished), os''))
      | (LRaise ex, os') \<Rightarrow>
          (case win_finally p handle (Raise ex) os' of (sig, os'') \<Rightarrow> ((sig, Finished), os'')))"

definition win_start :: "string \<Rightarrow> os_state \<Rightarrow> (DirEntry signal \<times> scan_gen) \<times> os_state" where
  "win_start p os =
     (let fname = join os p windows_wildcard
      in case FindFirstFile fname os of
           (None, os') \<Rightarrow>
             (let error = errno os'
              in if error = ERROR_FILE_NOT_FOUND then ((StopIteration, Finished), os')
                 else ((Raise (win_error error p), Finished), os'))
         | (Some (handle, data), os') \<Rightarrow> win_resume p handle (Some data) os')"

text \<open>The fallback: \<^verbatim>\<open>for name in os.listdir(path): yield DirEntry(path, name)\<close>.\<close>

fun other_resume :: "string \<Rightarrow> string list \<Rightarrow> os_state \<Rightarrow> (DirEntry signal \<times> scan_gen) \<times> os_state" where
  "other_resume p [] os = ((StopIteration, Finished), os)"
| "other_resume p (nm # names) os = ((Yield (OtherDirEntry p nm None), OtherSuspended p names), os)"

definition other_start :: "string \<Rightarrow> os_state \<Rightarrow> (DirEntry signal \<times> scan_gen) \<times> os_state" where
  "other_start p os =
     (case listdir p os of
        (Inl ex, os') \<Rightarrow> ((Raise ex, Finished), os')
      | (Inr names, os') \<Rightarrow> other_resume p names os')"

text \<open>
  \<^verbatim>\<open>next(gen)\<close>: run the body to its next \<^verbatim>\<open>yield\<close>, to its end or to an exception.
  The branch of \<^verbatim>\<open>sys.platform\<close> decides which \<^verbatim>\<open>scandir\<close> the module defines.
\<close>

fun scandir_next :: "scan_gen \<Rightarrow> os_state \<Rightarrow> (DirEntry signal \<times> scan_gen) \<times> os_state" where
  "scandir_next (NotStarted p) os =
     (case platform os of
        Win32 \<Rightarrow> win_start p os
      | Posix \<Rightarrow> posix_start p os
      | OtherOS \<Rightarrow> other_start p os)"
| "scandir_next (PosixSuspended p dir_p) os = posix_resume p dir_p os"
| "scandir_next (WinSuspended p handle) os = win_resume p handle None os"
| "scandir_next (OtherSuspended p names) os = other_resume p names os"
| "scandir_next Finished os = ((StopIteration, Finished), os)"

text \<open>
  \<^verbatim>\<open>gen.close()\<close>, which is also what the interpreter does to a generator that is
  dropped before it is exhausted: \<^verbatim>\<open>GeneratorExit\<close> is raised at the \<^verbatim>\<open>yield\<close> where the
  generator is suspended, so the \<^verbatim>\<open>finally\<close> clause runs. The exception is what that
  clause raises, if it does.
\<close>

fun scandir_close :: "scan_gen \<Rightarrow> os_state \<Rightarrow> (exn option \<times> scan_gen) \<times> os_state" where
  "scandir_close (NotStarted p) os = ((None, Finished), os)"
| "scandir_close (PosixSuspended p dir_p) os =
     (case closedir dir_p os of
        (r, os') \<Rightarrow> if r \<noteq> 0 then ((Some (posix_error p os'), Finished), os')
                    else ((None, Finished), os'))"
| "scandir_close (WinSuspended p handle) os =
     (case FindClose handle os of
        (ok, os') \<Rightarrow> if \<not> ok then ((Some (win_error (errno os') p), Finished), os')
                     else ((None, Finished), os'))"
| "scandir_close (OtherSuspended p names) os = ((None, Finished), os)"
| "scandir_close Finished os = ((None, Finished), os)"

subsection \<open>Running a generator to its end\<close>

text \<open>
  A bound on the number of entries a generator can still yield, by which the loops over
  a generator terminate.
\<close>

fun gen_measure :: "scan_gen \<times> os_state \<Rightarrow> nat" where
  "gen_measure (NotStarted p, os) =
     (case platform os of
        Win32 \<Rightarrow>
          (case find_tab os (join os p windows_wildcard) of
             Inl e \<Rightarrow> 0 | Inr (data, stream) \<Rightarrow> Suc (Suc (length stream)))
      | Posix \<Rightarrow>
          (case fs_encode os p of
             None \<Rightarrow> 0
           | Some bytes \<Rightarrow>
               (case dir_tab os bytes of Inl e \<Rightarrow> 0 | Inr stream \<Rightarrow> Suc (Suc (length stream))))
      | OtherOS \<Rightarrow>
          (case dir_tab os p of Inl e \<Rightarrow> 0 | Inr stream \<Rightarrow> Suc (Suc (length stream))))"
| "gen_measure (PosixSuspended p dir_p, os) = Suc (length (snd dir_p))"
| "gen_measure (WinSuspended p handle, os) = Suc (length (snd handle))"
| "gen_measure (OtherSuspended p names, os) = Suc (length names)"
| "gen_measure (Finished, os) = 0"

lemma posix_loop_shorter:
  "posix_loop p dir_p os = (LYield e dir_p', os') \<Longrightarrow> length (snd dir_p') < length (snd dir_p)"
proof (induction p dir_p os rule: posix_loop.induct)
  case (1 p dir_p os)
  obtain ret result d1 os1 where rd: "readdir_r dir_p os = ((ret, result, d1), os1)"
    by (metis prod_cases3 surj_pair)
  from "1.prems" rd have ret: "ret = 0"
    by (simp add: posix_loop.simps [of p dir_p os] split: if_splits)
  show ?case
  proof (cases result)
    case None
    with rd ret "1.prems" show ?thesis by (simp add: posix_loop.simps [of p dir_p os])
  next
    case (Some entry)
    with rd have less: "length (snd d1) < length (snd dir_p)"
      by (auto dest: readdir_r_shorter)
    show ?thesis
    proof (cases "fs_decode os1 (d_name entry)")
      case None
      with rd ret Some "1.prems" show ?thesis
        by (simp add: posix_loop.simps [of p dir_p os])
    next
      case decoded: (Some nm)
      show ?thesis
      proof (cases "nm \<notin> {''.'', ''..''}")
        case True
        with rd ret Some decoded "1.prems" less show ?thesis
          by (auto simp: posix_loop.simps [of p dir_p os])
      next
        case False
        with rd ret Some decoded "1.prems"
        have "posix_loop p d1 os1 = (LYield e dir_p', os')"
          by (auto simp: posix_loop.simps [of p dir_p os])
        then have "length (snd dir_p') < length (snd d1)"
          using "1.IH" [OF rd [symmetric] refl refl _ Some decoded] False ret by auto
        with less show ?thesis by simp
      qed
    qed
  qed
qed

lemma win_loop_shorter:
  "win_loop p handle cur os = (LYield e handle', os') \<Longrightarrow>
   length (snd handle') \<le> length (snd handle) \<and>
   (cur = None \<longrightarrow> length (snd handle') < length (snd handle))"
proof (induction p handle cur os rule: win_loop.induct)
  case (1 p handle cur os)
  show ?case
  proof (cases cur)
    case (Some data)
    show ?thesis
    proof (cases "cFileName data \<notin> {''.'', ''..''}")
      case True
      with Some "1.prems" show ?thesis
        by (auto simp: win_loop.simps [of p handle "Some data" os] Let_def)
    next
      case False
      with Some "1.prems" have "win_loop p handle None os = (LYield e handle', os')"
        by (auto simp: win_loop.simps [of p handle "Some data" os] Let_def)
      with "1.IH"(2) [OF Some refl] False Some show ?thesis by auto
    qed
  next
    case None
    obtain r h1 os1 where fn: "FindNextFile handle os = ((r, h1), os1)"
      by (metis surj_pair)
    show ?thesis
    proof (cases r)
      case None
      with fn \<open>cur = None\<close> "1.prems" show ?thesis
        by (simp add: win_loop.simps [of p handle None os] Let_def split: if_splits)
    next
      case (Some data)
      with fn have less: "length (snd h1) < length (snd handle)"
        by (auto dest: FindNextFile_shorter)
      from fn Some \<open>cur = None\<close> "1.prems"
      have "win_loop p h1 (Some data) os1 = (LYield e handle', os')"
        by (simp add: win_loop.simps [of p handle None os])
      with "1.IH"(1) [OF \<open>cur = None\<close> fn [symmetric] refl Some]
      have "length (snd handle') \<le> length (snd h1)" by simp
      with less show ?thesis by simp
    qed
  qed
qed


lemma stream_names_length: "stream_names stream = Inr ns \<Longrightarrow> length ns \<le> length stream"
proof (induction stream arbitrary: ns rule: stream_names.induct)
  case (2 entry rest)
  then show ?case by (auto split: sum.splits)
qed simp_all

lemma other_resume_Yield:
  "other_resume p names os = ((Yield e, g'), os') \<Longrightarrow>
   (\<exists>nm rest. names = nm # rest \<and> g' = OtherSuspended p rest)"
  by (cases names) auto

lemma scandir_next_decreases:
  assumes "scandir_next g os = ((Yield e, g'), os')"
  shows "gen_measure (g', os'') < gen_measure (g, os)"
proof (cases g)
  case (NotStarted p)
  show ?thesis
  proof (cases "platform os")
    case Win32
    with NotStarted assms show ?thesis
      by (auto simp: win_start_def win_resume_def win_finally_def FindFirstFile_def
            open_handle_def Let_def
          split: sum.splits prod.splits option.splits if_splits loop_exit.splits
          dest!: win_loop_shorter)
  next
    case Posix
    with NotStarted assms show ?thesis
      by (auto simp: posix_start_def posix_resume_def posix_finally_def opendir_def
            open_handle_def Let_def
          split: sum.splits prod.splits option.splits if_splits loop_exit.splits
          dest!: posix_loop_shorter)
  next
    case OtherOS
    have filt: "length rest < Suc (length xs)"
      if "length ns \<le> length xs" "filter P ns = nm # rest"
      for rest ns :: "string list" and xs :: "dirent step list" and P nm
    proof -
      have "length (filter P ns) \<le> length ns" by (rule length_filter_le)
      with that show ?thesis by simp
    qed
    from OtherOS NotStarted assms show ?thesis
      by (auto simp: other_start_def listdir_def Let_def
          split: sum.splits prod.splits if_splits
          dest!: other_resume_Yield stream_names_length intro: filt)
  qed
next
  case (PosixSuspended p dir_p)
  with assms show ?thesis
    by (auto simp: posix_resume_def posix_finally_def
        split: prod.splits loop_exit.splits if_splits dest!: posix_loop_shorter)
next
  case (WinSuspended p handle)
  with assms show ?thesis
    by (auto simp: win_resume_def win_finally_def
        split: prod.splits loop_exit.splits if_splits dest!: win_loop_shorter)
next
  case (OtherSuspended p names)
  with assms show ?thesis by (auto dest!: other_resume_Yield)
next
  case Finished
  with assms show ?thesis by simp
qed

text \<open>
  \<^verbatim>\<open>list(gen)\<close>, keeping what the generator yielded before it raised: the entries, the
  exception if the iteration ended with one, and the operating system afterwards.
\<close>

function scandir_list :: "scan_gen \<Rightarrow> os_state \<Rightarrow> (DirEntry list \<times> exn option) \<times> os_state" where
  "scandir_list g os =
     (case scandir_next g os of
        ((Yield e, g'), os') \<Rightarrow>
          (case scandir_list g' os' of ((es, ex), os'') \<Rightarrow> ((e # es, ex), os''))
      | ((StopIteration, g'), os') \<Rightarrow> (([], None), os')
      | ((Raise ex, g'), os') \<Rightarrow> (([], Some ex), os'))"
  by pat_completeness auto

termination scandir_list
  by (relation "measure (\<lambda>(g, os). gen_measure (g, os))")
     (auto dest: scandir_next_decreases [OF sym])

declare scandir_list.simps [simp del]

subsection \<open>The tree walker\<close>

text \<open>
  The first loop of \<^verbatim>\<open>walk\<close>, \<^verbatim>\<open>for entry in scandir(top)\<close> with its body: the two lists
  when the generator is exhausted, or the exception that left the loop.
\<close>

function scan_entries :: "scan_gen \<Rightarrow> os_state \<Rightarrow> DirEntry list \<Rightarrow> DirEntry list \<Rightarrow>
    (exn + DirEntry list \<times> DirEntry list) \<times> os_state" where
  "scan_entries g os dirs nondirs =
     (case scandir_next g os of
        ((Raise ex, g'), os') \<Rightarrow> (Inl ex, os')
      | ((StopIteration, g'), os') \<Rightarrow> (Inr (dirs, nondirs), os')
      | ((Yield entry, g'), os') \<Rightarrow>
          (case isdir entry os' of
             (b, entry', os'') \<Rightarrow>
               if b then scan_entries g' os'' (dirs @ [entry']) nondirs
               else scan_entries g' os'' dirs (nondirs @ [entry'])))"
  by pat_completeness auto

termination scan_entries
  by (relation "measure (\<lambda>(g, os, dirs, nondirs). gen_measure (g, os))")
     (auto dest: scandir_next_decreases [OF sym])

declare scan_entries.simps [simp del]

text \<open>
  What the consumer of \<^verbatim>\<open>walk\<close> observes, in order: the triples yielded, and the calls
  of the error handler. A handler is the function from the error it is called with to
  the exception it raises, \<open>None\<close> when it returns. The consumer is the function from a
  triple yielded in top-down mode to the content of its list of directory names when
  the generator is resumed (the identity when the consumer leaves the list alone).
\<close>

datatype walk_event = Triple string "string list" "string list" | OnError exn

type_synonym handler = "exn \<Rightarrow> exn option"
type_synonym consumer = "string \<times> string list \<times> string list \<Rightarrow> string list"

text \<open>
  The second loop of the top-down branch: each name of the edited list is looked up in
  \<^verbatim>\<open>entries_by_name\<close>. For a name that is not there the source calls \<^verbatim>\<open>TODO_DirEntry\<close>,
  a name that the module does not define, which raises \<^verbatim>\<open>NameError\<close>.
\<close>

fun resolve :: "(string \<rightharpoonup> DirEntry) \<Rightarrow> string list \<Rightarrow> exn + DirEntry list" where
  "resolve entries_by_name [] = Inr []"
| "resolve entries_by_name (dir_name # rest) =
     (case entries_by_name dir_name of
        None \<Rightarrow> Inl (NameError ''TODO_DirEntry'')
      | Some entry \<Rightarrow>
          (case resolve entries_by_name rest of
             Inl ex \<Rightarrow> Inl ex
           | Inr dirs \<Rightarrow> Inr (entry # dirs)))"

text \<open>The dictionary \<^verbatim>\<open>entries_by_name\<close>: a later entry replaces an earlier one of its name.\<close>

fun keyed :: "DirEntry list \<Rightarrow> (string \<rightharpoonup> DirEntry) \<Rightarrow> (string \<rightharpoonup> DirEntry)" where
  "keyed [] m = m"
| "keyed (entry # rest) m = keyed rest (m(name entry \<mapsto> entry))"

text \<open>
  \<^verbatim>\<open>walk\<close>, run to its end by a consumer that asks for every triple. The first argument
  bounds the depth of the recursion (\<open>None\<close>: the bound was reached), since a tree of
  directories need not be finite. \<open>walk_dirs\<close> is the last loop, over \<^verbatim>\<open>dirs\<close>. An
  exception ends the walk; the triples before it have been yielded. The consumer only
  edits the list it is given: it does not change the file system between two triples.
\<close>

fun walk :: "nat \<Rightarrow> string \<Rightarrow> bool \<Rightarrow> handler option \<Rightarrow> bool \<Rightarrow> consumer \<Rightarrow> os_state \<Rightarrow>
    ((walk_event list \<times> exn option) \<times> os_state) option"
and walk_dirs :: "nat \<Rightarrow> string \<Rightarrow> DirEntry list \<Rightarrow> bool \<Rightarrow> handler option \<Rightarrow> bool \<Rightarrow> consumer \<Rightarrow>
    os_state \<Rightarrow> ((walk_event list \<times> exn option) \<times> os_state) option" where
  "walk 0 tp topdown onerror followlinks edit os = None"
| "walk (Suc n) tp topdown onerror followlinks edit os =
     (case scan_entries (scandir tp) os [] [] of
        (Inl error, os1) \<Rightarrow>
          (case error of
             OSError code fname \<Rightarrow>
               (case onerror of
                  None \<Rightarrow> Some (([], None), os1)
                | Some h \<Rightarrow> Some (([OnError error], h error), os1))
           | NameError v \<Rightarrow> Some (([], Some error), os1)
           | UnicodeError v \<Rightarrow> Some (([], Some error), os1))
      | (Inr (dirs, nondirs), os1) \<Rightarrow>
          if topdown then
            (let dir_names = map name dirs;
                 entries_by_name = keyed dirs Map.empty;
                 dir_names' = edit (tp, dir_names, map name nondirs)
             in case resolve entries_by_name dir_names' of
                  Inl ex \<Rightarrow> Some (([Triple tp dir_names (map name nondirs)], Some ex), os1)
                | Inr dirs' \<Rightarrow>
                    (case walk_dirs n tp dirs' topdown onerror followlinks edit os1 of
                       None \<Rightarrow> None
                     | Some ((evs, ex), os2) \<Rightarrow>
                         Some ((Triple tp dir_names (map name nondirs) # evs, ex), os2)))
          else
            (case walk_dirs n tp dirs topdown onerror followlinks edit os1 of
               None \<Rightarrow> None
             | Some ((evs, Some ex), os2) \<Rightarrow> Some ((evs, Some ex), os2)
             | Some ((evs, None), os2) \<Rightarrow>
                 Some ((evs @ [Triple tp (map name dirs) (map name nondirs)], None), os2)))"
| "walk_dirs n tp [] topdown onerror followlinks edit os = Some (([], None), os)"
| "walk_dirs n tp (entry # rest) topdown onerror followlinks edit os =
     (case (if followlinks then (False, entry, os) else islink entry os) of
        (link, entry', os1) \<Rightarrow>
          if followlinks \<or> \<not> link then
            (case walk n (join os1 tp (name entry)) topdown onerror followlinks edit os1 of
               None \<Rightarrow> None
             | Some ((evs, Some ex), os2) \<Rightarrow> Some ((evs, Some ex), os2)
             | Some ((evs, None), os2) \<Rightarrow>
                 (case walk_dirs n tp rest topdown onerror followlinks edit os2 of
                    None \<Rightarrow> None
                  | Some ((evs', ex), os3) \<Rightarrow> Some ((evs @ evs', ex), os3)))
          else walk_dirs n tp rest topdown onerror followlinks edit os1)"

section \<open>Notions used to state the properties\<close>

text \<open>The argument of the status query of an entry, \<^verbatim>\<open>join(self._path, self.name)\<close>.\<close>

definition entry_path :: "DirEntry \<Rightarrow> os_state \<Rightarrow> string" where
  "entry_path self os = join os (path_of self) (name self)"

text \<open>
  Whether the enumeration step gave the entry a definite type: always on Win32 (the
  attributes), on POSIX when \<^verbatim>\<open>d_type\<close> is not \<^verbatim>\<open>DT_UNKNOWN\<close>, never in the fallback.
\<close>

definition has_hint :: "DirEntry \<Rightarrow> bool" where
  "has_hint self =
     (case self of
        WinDirEntry n c fd \<Rightarrow> True
      | PosixDirEntry p n d c \<Rightarrow> d_type d \<noteq> DT_UNKNOWN
      | OtherDirEntry p n c \<Rightarrow> False)"

text \<open>\<open>k\<close> calls of \<^verbatim>\<open>lstat\<close> on one entry, one after the other, with their results.\<close>

fun lstat_calls :: "nat \<Rightarrow> DirEntry \<Rightarrow> os_state \<Rightarrow> (exn + stat_result) list \<times> DirEntry \<times> os_state" where
  "lstat_calls 0 self os = ([], self, os)"
| "lstat_calls (Suc k) self os =
     (case DirEntry_lstat self os of
        (r, self', os') \<Rightarrow>
          (case lstat_calls k self' os' of (rs, self'', os'') \<Rightarrow> (r # rs, self'', os'')))"

subsection \<open>Concrete inputs\<close>

text \<open>
  What \<^verbatim>\<open>ntpath.join\<close> gives for a relative path without a drive and a plain name.
\<close>

definition backslash_join :: "string \<Rightarrow> string \<Rightarrow> string" where
  "backslash_join a b = a @ [CHR 0x5C] @ b"

text \<open>
  An operating system with nothing in it: every open fails (\<^verbatim>\<open>ENOENT\<close>, or
  \<^verbatim>\<open>ERROR_PATH_NOT_FOUND\<close> on Win32) and so does every status query. Every string
  encodes and decodes, to itself.
\<close>

definition plain_os :: "platform \<Rightarrow> os_state" where
  "plain_os pf = \<lparr>platform = pf, dir_tab = (\<lambda>p. Inl 2), find_tab = (\<lambda>p. Inl 3),
     close_tab = (\<lambda>h. 0), lstat_tab = (\<lambda>k p. Inl 2), fs_encode = Some, fs_decode = Some,
     ntpath_join = backslash_join, errno = 0, next_handle = 1, handles = [], trace = []\<rparr>"

text \<open>A file that does not exist at the first status query and exists from the second on.\<close>

definition appearing_file :: "nat \<Rightarrow> string \<Rightarrow> int + stat_result" where
  "appearing_file k p = (if k = 0 then Inl 2 else Inr \<lparr>st_mode = 16877, st_size = 0\<rparr>)"

text \<open>An entry that POSIX enumerated without a type.\<close>

definition unknown_entry :: DirEntry where
  "unknown_entry = PosixDirEntry ''d'' ''f'' \<lparr>d_type = 0, d_name = ''f''\<rparr> None"

text \<open>
  The tree \<^verbatim>\<open>root/{a/, link -> a, f.txt}\<close> with \<^verbatim>\<open>a/x.txt\<close>, as POSIX enumerates it
  (\<^verbatim>\<open>d_type\<close> 4 is a directory, 8 a regular file, 10 a symbolic link); every other path
  does not exist.
\<close>

definition sample_tree :: "string \<Rightarrow> int + dirent step list" where
  "sample_tree p =
     (if p = ''root'' then
        Inr [Data \<lparr>d_type = 4, d_name = ''.''\<rparr>, Data \<lparr>d_type = 4, d_name = ''..''\<rparr>,
             Data \<lparr>d_type = 4, d_name = ''a''\<rparr>, Data \<lparr>d_type = 10, d_name = ''link''\<rparr>,
             Data \<lparr>d_type = 8, d_name = ''f.txt''\<rparr>]
      else if p = ''root/a'' \<or> p = ''root/link'' then
        Inr [Data \<lparr>d_type = 4, d_name = ''.''\<rparr>, Data \<lparr>d_type = 4, d_name = ''..''\<rparr>,
             Data \<lparr>d_type = 8, d_name = ''x.txt''\<rparr>]
      else Inl 2)"

definition sample_os :: "platform \<Rightarrow> os_state" where
  "sample_os pf = (plain_os pf)\<lparr>dir_tab := sample_tree\<rparr>"

text \<open>
  A Win32 system where every search opens its directory and finds no file that matches
  the pattern (\<^verbatim>\<open>ERROR_FILE_NOT_FOUND\<close>).
\<close>

definition no_match_os :: os_state where
  "no_match_os = (plain_os Win32)\<lparr>find_tab := (\<lambda>p. Inl ERROR_FILE_NOT_FOUND)\<rparr>"

subsection \<open>Handles opened and released\<close>

text \<open>
  The handles that the trace shows opened, and those it shows released, in order and
  with repetitions; the handle a suspended generator holds.
\<close>

fun opened :: "event list \<Rightarrow> nat list" where
  "opened [] = []"
| "opened (EvOpen h # evs) = h # opened evs"
| "opened (ev # evs) = opened evs"

fun released :: "event list \<Rightarrow> nat list" where
  "released [] = []"
| "released (EvClose h # evs) = h # released evs"
| "released (ev # evs) = released evs"

fun held :: "scan_gen \<Rightarrow> nat list" where
  "held (PosixSuspended p dir_p) = [fst dir_p]"
| "held (WinSuspended p handle) = [fst handle]"
| "held g = []"

text \<open>
  A consumer of a generator: a sequence of \<^verbatim>\<open>next\<close> and \<^verbatim>\<open>close\<close>, with what each of them
  gave. A consumer that drops a generator closes it.
\<close>

datatype gen_op = Next | Close

datatype outcome = Got "DirEntry signal" | Closed "exn option"

fun drive :: "gen_op list \<Rightarrow> scan_gen \<Rightarrow> os_state \<Rightarrow> outcome list \<times> scan_gen \<times> os_state" where
  "drive [] g os = ([], g, os)"
| "drive (Next # ops) g os =
     (case scandir_next g os of
        ((sig, g'), os') \<Rightarrow>
          (case drive ops g' os' of (outs, g'', os'') \<Rightarrow> (Got sig # outs, g'', os'')))"
| "drive (Close # ops) g os =
     (case scandir_close g os of
        ((x, g'), os') \<Rightarrow>
          (case drive ops g' os' of (outs, g'', os'') \<Rightarrow> (Closed x # outs, g'', os'')))"

fun suspends :: "outcome \<Rightarrow> bool" where
  "suspends (Got (Yield e)) = True"
| "suspends out = False"

text \<open>
  What the state of a generator says about the trace since the operating system was
  in the state \<open>os0\<close>, when the generator was made.
\<close>

fun gen_inv :: "os_state \<Rightarrow> scan_gen \<Rightarrow> os_state \<Rightarrow> bool" where
  "gen_inv os0 (PosixSuspended p dir_p) os \<longleftrightarrow>
     opened (trace os) = opened (trace os0) @ [fst dir_p] \<and>
     released (trace os) = released (trace os0) \<and> fst dir_p \<in> set (handles os)"
| "gen_inv os0 (WinSuspended p handle) os \<longleftrightarrow>
     opened (trace os) = opened (trace os0) @ [fst handle] \<and>
     released (trace os) = released (trace os0) \<and> fst handle \<in> set (handles os)"
| "gen_inv os0 Finished os \<longleftrightarrow>
     (\<exists>rs. opened (trace os) = opened (trace os0) @ rs \<and>
           released (trace os) = released (trace os0) @ rs \<and>
           length rs \<le> 1 \<and> set rs \<inter> set (handles os) = {})"
| "gen_inv os0 g os \<longleftrightarrow>
     opened (trace os) = opened (trace os0) \<and> released (trace os) = released (trace os0)"

definition quiet :: "os_state \<Rightarrow> os_state \<Rightarrow> bool" where
  "quiet os os' \<longleftrightarrow>
     opened (trace os') = opened (trace os) \<and> released (trace os') = released (trace os) \<and>
     handles os' = handles os"

definition closes :: "nat \<Rightarrow> os_state \<Rightarrow> os_state \<Rightarrow> bool" where
  "closes h os os' \<longleftrightarrow>
     opened (trace os') = opened (trace os) \<and>
     released (trace os') = released (trace os) @ [h] \<and>
     handles os' = removeAll h (handles os)"



text \<open>A directory whose enumeration fails at the second step.\<close>

definition failing_os :: os_state where
  "failing_os = (plain_os Posix)\<lparr>dir_tab := (\<lambda>p.
      Inr [Data \<lparr>d_type = 8, d_name = ''f.txt''\<rparr>, Fail 5, Data \<lparr>d_type = 8, d_name = ''g.txt''\<rparr>])\<rparr>"

subsection \<open>Observations of a walk\<close>




definition after_events :: "walk_event list \<Rightarrow>
    ((walk_event list \<times> exn option) \<times> os_state) option \<Rightarrow>
    ((walk_event list \<times> exn option) \<times> os_state) option" where
  "after_events evs r = map_option (\<lambda>((evs', ex), os). ((evs @ evs', ex), os)) r"

text \<open>
  A consumer that leaves the lists alone, a handler that returns, and a tree
  \<^verbatim>\<open>root/{a/, b/, f.txt}\<close> with \<^verbatim>\<open>b/x.txt\<close> whose directory \<^verbatim>\<open>a\<close> cannot be opened
  (\<^verbatim>\<open>EACCES\<close>, 13), with the entries of its two directories.
\<close>

definition keep_all :: consumer where
  "keep_all = (\<lambda>(tp, dir_names, file_names). dir_names)"






subsection \<open>Inputs for the claims that the code does not meet\<close>

text \<open>A consumer that appends a name to the list it is given, and one that empties it.\<close>

definition add_name :: consumer where
  "add_name = (\<lambda>(tp, dir_names, file_names). dir_names @ [''new''])"

definition drop_all :: consumer where
  "drop_all = (\<lambda>(tp, dir_names, file_names). [])"

text \<open>
  Two Win32 entries that are reparse points: a directory link (attributes
  \<^verbatim>\<open>DIRECTORY | REPARSE_POINT\<close>) and a file link (\<^verbatim>\<open>REPARSE_POINT\<close> alone).
\<close>

definition junction_entry :: DirEntry where
  "junction_entry = WinDirEntry ''link'' None
     \<lparr>dwFileAttributes = 1040, nFileSizeHigh = 0, nFileSizeLow = 0, cFileName = ''link''\<rparr>"

definition file_link_entry :: DirEntry where
  "file_link_entry = WinDirEntry ''ln.txt'' None
     \<lparr>dwFileAttributes = 1024, nFileSizeHigh = 0, nFileSizeLow = 0, cFileName = ''ln.txt''\<rparr>"

text \<open>
  The macro \<^verbatim>\<open>IFTODT\<close> of the C library, by which the \<^verbatim>\<open>d_type\<close> of a directory record is
  the file type of the mode of the file: \<^verbatim>\<open>(mode & 0170000) >> 12\<close>.
\<close>

definition IFTODT :: "int \<Rightarrow> int" where
  "IFTODT mode = drop_bit 12 (mode AND S_IFMT)"

text \<open>
  The same tree as Win32 enumerates it: \<^verbatim>\<open>link\<close> has the attributes of a directory and
  of a reparse point (16 is a directory, 32 an ordinary file).
\<close>

definition win_data :: "int \<Rightarrow> string \<Rightarrow> find_data" where
  "win_data attributes nm =
     \<lparr>dwFileAttributes = attributes, nFileSizeHigh = 0, nFileSizeLow = 0, cFileName = nm\<rparr>"

definition win_sample_os :: os_state where
  "win_sample_os = (plain_os Win32)\<lparr>find_tab := (\<lambda>pattern.
     if pattern = backslash_join ''root'' windows_wildcard then
       Inr (win_data 16 ''.'', [Data (win_data 16 ''..''), Data (win_data 16 ''a''),
            Data (win_data 1040 ''link''), Data (win_data 32 ''f.txt'')])
     else if pattern = backslash_join (backslash_join ''root'' ''a'') windows_wildcard
          \<or> pattern = backslash_join (backslash_join ''root'' ''link'') windows_wildcard then
       Inr (win_data 16 ''.'', [Data (win_data 16 ''..''), Data (win_data 32 ''x.txt'')])
     else Inl 3)\<rparr>"

section \<open>Properties\<close>

subsection \<open>Basic facts\<close>

lemma lstat_count_record_event [simp]:
  "lstat_count (record_event ev os) =
     (case ev of EvLstat p \<Rightarrow> Suc (lstat_count os) | _ \<Rightarrow> lstat_count os)"
  by (simp add: lstat_count_def record_event_def split: event.splits)

lemma record_event_fields [simp]:
  "platform (record_event ev os) = platform os"
  "dir_tab (record_event ev os) = dir_tab os"
  "find_tab (record_event ev os) = find_tab os"
  "close_tab (record_event ev os) = close_tab os"
  "lstat_tab (record_event ev os) = lstat_tab os"
  "fs_encode (record_event ev os) = fs_encode os"
  "fs_decode (record_event ev os) = fs_decode os"
  "ntpath_join (record_event ev os) = ntpath_join os"
  "errno (record_event ev os) = errno os"
  "next_handle (record_event ev os) = next_handle os"
  "handles (record_event ev os) = handles os"
  "trace (record_event ev os) = trace os @ [ev]"
  by (simp_all add: record_event_def)

lemma lstat_Inl:
  "lstat_tab os (lstat_count os) p = Inl code \<Longrightarrow>
   lstat p os = (Inl (OSError code p), record_event (EvLstat p) os)"
  by (simp add: lstat_def)

lemma lstat_Inr:
  "lstat_tab os (lstat_count os) p = Inr st \<Longrightarrow>
   lstat p os = (Inr st, record_event (EvLstat p) os)"
  by (simp add: lstat_def)

lemma lstat_cases:
  obtains (fails) code where "lstat_tab os (lstat_count os) p = Inl code"
      "lstat p os = (Inl (OSError code p), record_event (EvLstat p) os)"
  | (succeeds) st where "lstat_tab os (lstat_count os) p = Inr st"
      "lstat p os = (Inr st, record_event (EvLstat p) os)"
  by (cases "lstat_tab os (lstat_count os) p") (auto simp: lstat_def)

lemma DirEntry_lstat_uncached:
  "lstat_cache self = None \<Longrightarrow> \<not> is_WinDirEntry self \<Longrightarrow>
   DirEntry_lstat self os =
     (case lstat (entry_path self os) os of
        (Inl ex, os') \<Rightarrow> (Inl ex, self, os')
      | (Inr st, os') \<Rightarrow> (Inr st, set_lstat self st, os'))"
  by (cases self) (auto simp: entry_path_def split: prod.splits sum.splits)

lemma DirEntry_lstat_cached:
  "lstat_cache self = Some st \<Longrightarrow> DirEntry_lstat self os = (Inr st, self, os)"
  by (cases self) auto

lemma DirEntry_lstat_fails:
  assumes "DirEntry_lstat self os = (Inl ex, self', os')"
  shows "lstat_cache self = None" "\<not> is_WinDirEntry self" "self' = self"
    "os' = record_event (EvLstat (entry_path self os)) os"
    "\<exists>code. ex = OSError code (entry_path self os) \<and>
            lstat_tab os (lstat_count os) (entry_path self os) = Inl code"
  using assms
  by (cases self; cases "lstat_cache self";
      auto simp: entry_path_def Let_def lstat_def split: prod.splits sum.splits)+

lemma no_hint_by_lstat:
  assumes "\<not> has_hint self"
  shows "isdir self os = by_lstat S_IFDIR self os"
    "isfile self os = by_lstat S_IFREG self os"
    "islink self os = by_lstat S_IFLNK self os"
  using assms by (cases self; simp add: has_hint_def Let_def)+

lemma join_record_event [simp]: "join (record_event ev os) a b = join os a b"
  by (simp add: join_def split: platform.splits)

lemma join_d_f: "platform os \<noteq> Win32 \<Longrightarrow> join os ''d'' ''f'' = ''d/f''"
  by (cases "platform os") (simp_all add: join_def posixpath_join_def starts_with_def ends_with_def)

lemma set_lstat_fields [simp]:
  "lstat_cache (set_lstat self st) = Some st"
  "name (set_lstat self st) = name self"
  "has_hint (set_lstat self st) = has_hint self"
  by (cases self; simp add: has_hint_def)+

lemma by_lstat_uncached:
  assumes "lstat_cache self = None" "\<not> is_WinDirEntry self"
  shows "by_lstat ifmt self os =
     (case lstat (entry_path self os) os of
        (Inl ex, os') \<Rightarrow> (False, self, os')
      | (Inr st, os') \<Rightarrow> (st_mode st AND S_IFMT = ifmt, set_lstat self st, os'))"
  by (simp add: by_lstat_def DirEntry_lstat_uncached [OF assms] split: prod.splits sum.splits)

lemma by_lstat_cached:
  "lstat_cache self = Some st \<Longrightarrow> by_lstat ifmt self os = (st_mode st AND S_IFMT = ifmt, self, os)"
  by (simp add: by_lstat_def DirEntry_lstat_cached)

lemma no_hint_not_Win: "\<not> has_hint self \<Longrightarrow> \<not> is_WinDirEntry self"
  by (cases self) (simp_all add: has_hint_def)

lemma lstat_calls_cached:
  "lstat_cache self = Some st \<Longrightarrow> lstat_calls k self os = (replicate k (Inr st), self, os)"
  by (induction k) (simp_all add: DirEntry_lstat_cached)

lemma DirEntry_lstat_succeeds:
  assumes "DirEntry_lstat self os = (Inr st, self1, os1)"
  shows "lstat_cache self1 = Some st"
    "lstat_count os1 = lstat_count os + (if is_WinDirEntry self \<or> lstat_cache self \<noteq> None then 0 else 1)"
    "is_WinDirEntry self \<or> lstat_cache self \<noteq> None \<Longrightarrow> os1 = os"
  using assms
  by (cases self; cases "lstat_cache self";
      auto simp: Let_def lstat_def split: prod.splits sum.splits)+

lemma posix_loop_Nil:
  "posix_loop p (h, []) os = (LBreak, record_event (EvRead h) os)"
  by (simp add: posix_loop.simps [of p "(h, [])" os] readdir_r_def)

lemma posix_loop_Data:
  "posix_loop p (h, Data e # rest) os =
     (case fs_decode os (d_name e) of
        None \<Rightarrow> (LRaise (UnicodeError (d_name e)), record_event (EvRead h) os)
      | Some nm \<Rightarrow>
          if nm \<notin> {''.'', ''..''}
          then (LYield (PosixDirEntry p nm e None) (h, rest), record_event (EvRead h) os)
          else posix_loop p (h, rest) (record_event (EvRead h) os))"
  by (simp add: posix_loop.simps [of p "(h, Data e # rest)" os] readdir_r_def Let_def)

lemma posix_loop_Fail:
  "posix_loop p (h, Fail c # rest) os =
     (if c \<noteq> 0 then (LRaise (OSError c p), (record_event (EvRead h) os)\<lparr>errno := c\<rparr>)
      else (LBreak, (record_event (EvRead h) os)\<lparr>errno := c\<rparr>))"
  by (simp add: posix_loop.simps [of p "(h, Fail c # rest)" os] readdir_r_def Let_def
      posix_error_def)









lemma scandir_list_StopIteration:
  "scandir_next g os = ((StopIteration, g'), os') \<Longrightarrow> scandir_list g os = (([], None), os')"
  by (simp add: scandir_list.simps [of g os])


lemma opened_append [simp]: "opened (xs @ ys) = opened xs @ opened ys"
  by (induction xs rule: opened.induct) simp_all

lemma released_append [simp]: "released (xs @ ys) = released xs @ released ys"
  by (induction xs rule: released.induct) simp_all

lemma quiet_refl [simp]: "quiet os os"
  by (simp add: quiet_def)

lemma quiet_trans: "quiet a b \<Longrightarrow> quiet b c \<Longrightarrow> quiet a c"
  by (simp add: quiet_def)

lemma quiet_read [simp]:
  "quiet (record_event (EvRead h) os) os' \<longleftrightarrow> quiet os os'"
  "quiet os (record_event (EvRead h) os') \<longleftrightarrow> quiet os os'"
  "quiet os (os'\<lparr>errno := c\<rparr>) \<longleftrightarrow> quiet os os'"
  "quiet (os\<lparr>errno := c\<rparr>) os' \<longleftrightarrow> quiet os os'"
  "quiet os (record_event (EvListdir p) os') \<longleftrightarrow> quiet os os'"
  by (simp_all add: quiet_def)

lemma posix_loop_quiet:
  "posix_loop p (h, stream) os = (ex, os') \<Longrightarrow>
   quiet os os' \<and> (\<forall>e d. ex = LYield e d \<longrightarrow> fst d = h)"
proof (induction stream arbitrary: os)
  case Nil
  then show ?case by (auto simp: posix_loop_Nil)
next
  case (Cons s rest)
  show ?case
  proof (cases s)
    case (Data e)
    show ?thesis
    proof (cases "fs_decode os (d_name e)")
      case None
      with Data Cons.prems show ?thesis by (auto simp: posix_loop_Data)
    next
      case (Some nm)
      show ?thesis
      proof (cases "nm \<notin> {''.'', ''..''}")
        case True
        with Data Some Cons.prems show ?thesis by (auto simp: posix_loop_Data)
      next
        case False
        with Data Some Cons.prems
        have "posix_loop p (h, rest) (record_event (EvRead h) os) = (ex, os')"
          by (auto simp: posix_loop_Data)
        from Cons.IH [OF this] show ?thesis by simp
      qed
    qed
  next
    case (Fail c)
    with Cons.prems show ?thesis by (auto simp: posix_loop_Fail split: if_splits)
  qed
qed

lemma win_loop_Some:
  "win_loop p handle (Some data) os =
     (if cFileName data \<notin> {''.'', ''..''}
      then (LYield (WinDirEntry (cFileName data) None data) handle, os)
      else win_loop p handle None os)"
  by (simp add: win_loop.simps [of p handle "Some data" os] Let_def)

lemma win_loop_None_Nil:
  "win_loop p (h, []) None os =
     (LBreak, (record_event (EvRead h) os)\<lparr>errno := ERROR_NO_MORE_FILES\<rparr>)"
  by (simp add: win_loop.simps [of p "(h, [])" None os] FindNextFile_def Let_def)

lemma win_loop_None_Data:
  "win_loop p (h, Data data # rest) None os =
     win_loop p (h, rest) (Some data) (record_event (EvRead h) os)"
  by (simp add: win_loop.simps [of p "(h, Data data # rest)" None os] FindNextFile_def Let_def)

lemma win_loop_None_Fail:
  "win_loop p (h, Fail c # rest) None os =
     (if c = ERROR_NO_MORE_FILES then LBreak else LRaise (OSError c p),
      (record_event (EvRead h) os)\<lparr>errno := c\<rparr>)"
  by (simp add: win_loop.simps [of p "(h, Fail c # rest)" None os] FindNextFile_def Let_def
      win_error_def)

lemma win_loop_quiet:
  "win_loop p (h, stream) cur os = (ex, os') \<Longrightarrow>
   quiet os os' \<and> (\<forall>e d. ex = LYield e d \<longrightarrow> fst d = h)"
proof (induction stream arbitrary: os cur)
  case Nil
  show ?case
  proof (cases cur)
    case None
    with Nil show ?thesis by (auto simp: win_loop_None_Nil)
  next
    case (Some data)
    with Nil show ?thesis
      by (auto simp: win_loop_Some win_loop_None_Nil split: if_splits)
  qed
next
  case (Cons s rest)
  have none: "quiet os0 os' \<and> (\<forall>e d. ex = LYield e d \<longrightarrow> fst d = h)"
    if "win_loop p (h, s # rest) None os0 = (ex, os')" for os0
  proof (cases s)
    case (Data data)
    with that have "win_loop p (h, rest) (Some data) (record_event (EvRead h) os0) = (ex, os')"
      by (simp add: win_loop_None_Data)
    from Cons.IH [OF this] show ?thesis by simp
  next
    case (Fail c)
    with that show ?thesis by (auto simp: win_loop_None_Fail split: if_splits)
  qed
  show ?case
  proof (cases cur)
    case None
    with Cons.prems none show ?thesis by simp
  next
    case (Some data)
    with Cons.prems none show ?thesis
      by (auto simp: win_loop_Some split: if_splits)
  qed
qed


lemma close_handle_closes: "close_handle h os = (code, os') \<Longrightarrow> closes h os os'"
  by (auto simp: close_handle_def closes_def Let_def split: if_splits)

lemma quiet_closes: "quiet os os1 \<Longrightarrow> closes h os1 os' \<Longrightarrow> closes h os os'"
  by (simp add: quiet_def closes_def)

lemma posix_finally_closes:
  "posix_finally p (h, s) pending os = (sig, os') \<Longrightarrow>
   closes h os os' \<and> (sig = pending \<or> (\<exists>ex. sig = Raise ex))"
  by (auto simp: posix_finally_def closedir_def split: prod.splits if_splits
      dest: close_handle_closes)

lemma win_finally_closes:
  "win_finally p (h, s) pending os = (sig, os') \<Longrightarrow>
   closes h os os' \<and> (sig = pending \<or> (\<exists>ex. sig = Raise ex))"
  by (auto simp: win_finally_def FindClose_def split: prod.splits if_splits
      dest: close_handle_closes)

lemma posix_resume_cases:
  assumes "posix_resume p (h, s) os = ((sig, g'), os')"
  shows "(\<exists>e s'. sig = Yield e \<and> g' = PosixSuspended p (h, s') \<and> quiet os os') \<or>
         ((\<forall>e. sig \<noteq> Yield e) \<and> g' = Finished \<and> closes h os os')"
proof -
  obtain ex os1 where l: "posix_loop p (h, s) os = (ex, os1)" by (metis surj_pair)
  note q = posix_loop_quiet [OF l]
  show ?thesis
  proof (cases ex)
    case (LYield e d)
    with l q assms show ?thesis
      by (cases d) (auto simp: posix_resume_def)
  next
    case LBreak
    with l assms obtain sg where f: "posix_finally p (h, s) StopIteration os1 = (sg, os')"
      and "sig = sg" "g' = Finished"
      by (auto simp: posix_resume_def split: prod.splits)
    with posix_finally_closes [OF f] q show ?thesis
      by (auto dest: quiet_closes)
  next
    case (LRaise x)
    with l assms obtain sg where f: "posix_finally p (h, s) (Raise x) os1 = (sg, os')"
      and "sig = sg" "g' = Finished"
      by (auto simp: posix_resume_def split: prod.splits)
    with posix_finally_closes [OF f] q show ?thesis
      by (auto dest: quiet_closes)
  qed
qed

lemma win_resume_cases:
  assumes "win_resume p (h, s) cur os = ((sig, g'), os')"
  shows "(\<exists>e s'. sig = Yield e \<and> g' = WinSuspended p (h, s') \<and> quiet os os') \<or>
         ((\<forall>e. sig \<noteq> Yield e) \<and> g' = Finished \<and> closes h os os')"
proof -
  obtain ex os1 where l: "win_loop p (h, s) cur os = (ex, os1)" by (metis surj_pair)
  note q = win_loop_quiet [OF l]
  show ?thesis
  proof (cases ex)
    case (LYield e d)
    with l q assms show ?thesis
      by (cases d) (auto simp: win_resume_def)
  next
    case LBreak
    with l assms obtain sg where f: "win_finally p (h, s) StopIteration os1 = (sg, os')"
      and "sig = sg" "g' = Finished"
      by (auto simp: win_resume_def split: prod.splits)
    with win_finally_closes [OF f] q show ?thesis
      by (auto dest: quiet_closes)
  next
    case (LRaise x)
    with l assms obtain sg where f: "win_finally p (h, s) (Raise x) os1 = (sg, os')"
      and "sig = sg" "g' = Finished"
      by (auto simp: win_resume_def split: prod.splits)
    with win_finally_closes [OF f] q show ?thesis
      by (auto dest: quiet_closes)
  qed
qed

lemma gen_inv_Finished_quiet:
  "opened (trace os) = opened (trace os0) \<Longrightarrow> released (trace os) = released (trace os0) \<Longrightarrow>
   quiet os os' \<Longrightarrow> gen_inv os0 Finished os'"
  by (simp add: quiet_def)

lemma gen_inv_Finished_closes:
  assumes "opened (trace os) = opened (trace os0) @ [h]"
    "released (trace os) = released (trace os0)" "closes h os os'"
  shows "gen_inv os0 Finished os'"
proof -
  from assms have "opened (trace os') = opened (trace os0) @ [h]"
    "released (trace os') = released (trace os0) @ [h]" "h \<notin> set (handles os')"
    by (simp_all add: closes_def)
  then show ?thesis by (simp only: gen_inv.simps) (rule exI [of _ "[h]"], simp)
qed

lemma open_handle_opens:
  "open_handle os = (h, os1) \<Longrightarrow>
   opened (trace os1) = opened (trace os) @ [h] \<and>
   released (trace os1) = released (trace os) \<and> h \<in> set (handles os1)"
  by (auto simp: open_handle_def Let_def)


lemma posix_resume_inv:
  assumes "opened (trace os) = opened (trace os0) @ [h]"
    "released (trace os) = released (trace os0)" "h \<in> set (handles os)"
    "posix_resume p (h, s) os = ((sig, g'), os')"
  shows "gen_inv os0 g' os' \<and> ((\<forall>e. sig \<noteq> Yield e) \<longrightarrow> g' = Finished)"
  using posix_resume_cases [OF assms(4)]
proof
  assume "\<exists>e s'. sig = Yield e \<and> g' = PosixSuspended p (h, s') \<and> quiet os os'"
  with assms(1-3) show ?thesis by (auto simp: quiet_def)
next
  assume "(\<forall>e. sig \<noteq> Yield e) \<and> g' = Finished \<and> closes h os os'"
  with gen_inv_Finished_closes [OF assms(1,2)] show ?thesis by blast
qed

lemma win_resume_inv:
  assumes "opened (trace os) = opened (trace os0) @ [h]"
    "released (trace os) = released (trace os0)" "h \<in> set (handles os)"
    "win_resume p (h, s) cur os = ((sig, g'), os')"
  shows "gen_inv os0 g' os' \<and> ((\<forall>e. sig \<noteq> Yield e) \<longrightarrow> g' = Finished)"
  using win_resume_cases [OF assms(4)]
proof
  assume "\<exists>e s'. sig = Yield e \<and> g' = WinSuspended p (h, s') \<and> quiet os os'"
  with assms(1-3) show ?thesis by (auto simp: quiet_def)
next
  assume "(\<forall>e. sig \<noteq> Yield e) \<and> g' = Finished \<and> closes h os os'"
  with gen_inv_Finished_closes [OF assms(1,2)] show ?thesis by blast
qed

lemma posix_start_inv:
  assumes "opened (trace os) = opened (trace os0)" "released (trace os) = released (trace os0)"
    "posix_start p os = ((sig, g'), os')"
  shows "gen_inv os0 g' os' \<and> ((\<forall>e. sig \<noteq> Yield e) \<longrightarrow> g' = Finished)"
proof (cases "fs_encode os p")
  case None
  with assms(3) have "g' = Finished" "os' = os" "sig = Raise (UnicodeError p)"
    by (auto simp: posix_start_def)
  with assms(1,2) show ?thesis by simp
next
  case (Some bytes)
  show ?thesis
  proof (cases "dir_tab os bytes")
    case (Inl e)
    with Some assms(3)
    have "g' = Finished" "os' = os\<lparr>errno := e\<rparr>" "sig = Raise (posix_error p os')"
      by (auto simp: posix_start_def opendir_def)
    with assms(1,2) show ?thesis by simp
  next
    case (Inr stream)
    obtain h os1 where o: "open_handle os = (h, os1)" by (metis surj_pair)
    with Some Inr assms(3) have r: "posix_resume p (h, stream) os1 = ((sig, g'), os')"
      by (simp add: posix_start_def opendir_def)
    from open_handle_opens [OF o] assms(1,2)
    have "opened (trace os1) = opened (trace os0) @ [h]"
      "released (trace os1) = released (trace os0)" "h \<in> set (handles os1)" by simp_all
    then show ?thesis using r by (rule posix_resume_inv)
  qed
qed

lemma win_start_inv:
  assumes "opened (trace os) = opened (trace os0)" "released (trace os) = released (trace os0)"
    "win_start p os = ((sig, g'), os')"
  shows "gen_inv os0 g' os' \<and> ((\<forall>e. sig \<noteq> Yield e) \<longrightarrow> g' = Finished)"
proof (cases "find_tab os (join os p windows_wildcard)")
  case (Inl e)
  with assms(3) have "g' = Finished" "os' = os\<lparr>errno := e\<rparr>" "\<forall>e. sig \<noteq> Yield e"
    by (auto simp: win_start_def FindFirstFile_def Let_def split: if_splits)
  with assms(1,2) show ?thesis by simp
next
  case (Inr found)
  obtain data stream where f: "found = (data, stream)" by (cases found)
  obtain h os1 where o: "open_handle os = (h, os1)" by (metis surj_pair)
  with Inr f assms(3) have r: "win_resume p (h, stream) (Some data) os1 = ((sig, g'), os')"
    by (simp add: win_start_def FindFirstFile_def Let_def)
  from open_handle_opens [OF o] assms(1,2)
  have "opened (trace os1) = opened (trace os0) @ [h]"
    "released (trace os1) = released (trace os0)" "h \<in> set (handles os1)" by simp_all
  then show ?thesis using r by (rule win_resume_inv)
qed

lemma other_resume_inv:
  assumes "opened (trace os) = opened (trace os0)" "released (trace os) = released (trace os0)"
    "other_resume p names os = ((sig, g'), os')"
  shows "gen_inv os0 g' os' \<and> ((\<forall>e. sig \<noteq> Yield e) \<longrightarrow> g' = Finished)"
  using assms by (cases names) auto

lemma other_start_inv:
  assumes "opened (trace os) = opened (trace os0)" "released (trace os) = released (trace os0)"
    "other_start p os = ((sig, g'), os')"
  shows "gen_inv os0 g' os' \<and> ((\<forall>e. sig \<noteq> Yield e) \<longrightarrow> g' = Finished)"
proof (cases "fst (listdir p os)")
  case (Inl ex)
  with assms(3) have "g' = Finished" "os' = snd (listdir p os)" "sig = Raise ex"
    by (auto simp: other_start_def split: prod.splits sum.splits)
  moreover have "trace (snd (listdir p os)) = trace os @ [EvListdir p]"
    by (simp add: listdir_def Let_def split: sum.splits)
  ultimately show ?thesis using assms(1,2) by simp
next
  case (Inr names)
  with assms(3) have r: "other_resume p names (snd (listdir p os)) = ((sig, g'), os')"
    by (auto simp: other_start_def split: prod.splits sum.splits)
  have "trace (snd (listdir p os)) = trace os @ [EvListdir p]"
    by (simp add: listdir_def Let_def split: sum.splits)
  with assms(1,2) have "opened (trace (snd (listdir p os))) = opened (trace os0)"
    "released (trace (snd (listdir p os))) = released (trace os0)" by simp_all
  then show ?thesis using r by (rule other_resume_inv)
qed

lemma scandir_next_inv:
  assumes "gen_inv os0 g os" "scandir_next g os = ((sig, g'), os')"
  shows "gen_inv os0 g' os' \<and> ((\<forall>e. sig \<noteq> Yield e) \<longrightarrow> g' = Finished)"
proof (cases g)
  case (NotStarted p)
  with assms(1) have o: "opened (trace os) = opened (trace os0)"
    "released (trace os) = released (trace os0)" by simp_all
  show ?thesis
  proof (cases "platform os")
    case Win32
    with NotStarted assms(2) have "win_start p os = ((sig, g'), os')" by simp
    with o show ?thesis by (rule win_start_inv)
  next
    case Posix
    with NotStarted assms(2) have "posix_start p os = ((sig, g'), os')" by simp
    with o show ?thesis by (rule posix_start_inv)
  next
    case OtherOS
    with NotStarted assms(2) have "other_start p os = ((sig, g'), os')" by simp
    with o show ?thesis by (rule other_start_inv)
  qed
next
  case (PosixSuspended p dir_p)
  obtain h s where d: "dir_p = (h, s)" by (cases dir_p)
  from assms PosixSuspended d show ?thesis
    by (intro posix_resume_inv [of os os0 h p s]) simp_all
next
  case (WinSuspended p handle)
  obtain h s where d: "handle = (h, s)" by (cases handle)
  from assms WinSuspended d show ?thesis
    by (intro win_resume_inv [of os os0 h p s None]) simp_all
next
  case (OtherSuspended p names)
  with assms show ?thesis
    by (intro other_resume_inv [of os os0 p names]) simp_all
next
  case Finished
  with assms show ?thesis by auto
qed

lemma scandir_close_inv:
  assumes "gen_inv os0 g os" "scandir_close g os = ((x, g'), os')"
  shows "gen_inv os0 g' os' \<and> g' = Finished"
proof (cases g)
  case (NotStarted p)
  with assms show ?thesis by (auto intro: exI [of _ "[]"])
next
  case (PosixSuspended p dir_p)
  obtain code os1 where c: "close_handle (fst dir_p) os = (code, os1)" by (metis surj_pair)
  with PosixSuspended assms(2) have "g' = Finished" "os' = os1"
    by (auto simp: closedir_def split: if_splits)
  moreover from PosixSuspended assms(1)
  have "opened (trace os) = opened (trace os0) @ [fst dir_p]"
    "released (trace os) = released (trace os0)" by simp_all
  then have "gen_inv os0 Finished os1"
    using close_handle_closes [OF c] by (rule gen_inv_Finished_closes)
  ultimately show ?thesis by simp
next
  case (WinSuspended p handle)
  obtain code os1 where c: "close_handle (fst handle) os = (code, os1)" by (metis surj_pair)
  with WinSuspended assms(2) have "g' = Finished" "os' = os1"
    by (auto simp: FindClose_def split: if_splits)
  moreover from WinSuspended assms(1)
  have "opened (trace os) = opened (trace os0) @ [fst handle]"
    "released (trace os) = released (trace os0)" by simp_all
  then have "gen_inv os0 Finished os1"
    using close_handle_closes [OF c] by (rule gen_inv_Finished_closes)
  ultimately show ?thesis by simp
next
  case (OtherSuspended p names)
  with assms show ?thesis by (auto intro: exI [of _ "[]"])
next
  case Finished
  with assms show ?thesis by auto
qed

lemma drive_inv:
  "gen_inv os0 g os \<Longrightarrow> drive ops g os = (outs, g', os') \<Longrightarrow>
   gen_inv os0 g' os' \<and> (outs \<noteq> [] \<and> \<not> suspends (last outs) \<longrightarrow> g' = Finished)"
proof (induction ops arbitrary: g os outs)
  case Nil
  then show ?case by simp
next
  case (Cons op ops)
  show ?case
  proof (cases op)
    case Next
    obtain sig g1 os1 where n: "scandir_next g os = ((sig, g1), os1)"
      by (metis surj_pair)
    obtain outs1 where d: "drive ops g1 os1 = (outs1, g', os')" and o: "outs = Got sig # outs1"
      using Cons.prems(2) Next n by (auto split: prod.splits)
    note i = scandir_next_inv [OF Cons.prems(1) n]
    from Cons.IH [OF i [THEN conjunct1] d]
    have g: "gen_inv os0 g' os'" and l: "outs1 \<noteq> [] \<and> \<not> suspends (last outs1) \<longrightarrow> g' = Finished"
      by simp_all
    show ?thesis
    proof (cases ops)
      case Nil
      with d have "outs1 = []" "g' = g1" by simp_all
      with o i g show ?thesis by (cases sig) auto
    next
      case (Cons a list)
      with d have "outs1 \<noteq> []" by (cases a) (auto split: prod.splits)
      with o g l show ?thesis by simp
    qed
  next
    case Close
    obtain x g1 os1 where n: "scandir_close g os = ((x, g1), os1)"
      by (metis surj_pair)
    obtain outs1 where d: "drive ops g1 os1 = (outs1, g', os')" and o: "outs = Closed x # outs1"
      using Cons.prems(2) Close n by (auto split: prod.splits)
    note i = scandir_close_inv [OF Cons.prems(1) n]
    from Cons.IH [OF i [THEN conjunct1] d]
    have g: "gen_inv os0 g' os'" and l: "outs1 \<noteq> [] \<and> \<not> suspends (last outs1) \<longrightarrow> g' = Finished"
      by simp_all
    show ?thesis
    proof (cases ops)
      case Nil
      with d have "outs1 = []" "g' = g1" by simp_all
      with o i g show ?thesis by auto
    next
      case (Cons a list)
      with d have "outs1 \<noteq> []" by (cases a) (auto split: prod.splits)
      with o g l show ?thesis by simp
    qed
  qed
qed

lemma and_S_IFMT: "(m AND S_IFMT) = 4096 * drop_bit 12 (m AND S_IFMT)" for m :: int
proof -
  have "take_bit 12 (m AND S_IFMT) = 0"
    by (simp add: S_IFMT_def take_bit_eq_mask and.assoc mask_eq_exp_minus_1)
  then have "(m AND S_IFMT) mod 4096 = 0" by (simp add: take_bit_eq_mod)
  then have "4096 * ((m AND S_IFMT) div 4096) = m AND S_IFMT"
    using mult_div_mod_eq [of 4096 "m AND S_IFMT"] by simp
  then show ?thesis by (simp add: drop_bit_eq_div)
qed


lemma IFTODT_eq: "IFTODT mode = k \<longleftrightarrow> mode AND S_IFMT = 4096 * k"
proof
  assume "IFTODT mode = k"
  then have "drop_bit 12 (mode AND S_IFMT) = k" by (simp only: IFTODT_def)
  with and_S_IFMT [of mode] show "mode AND S_IFMT = 4096 * k" by (simp only:)
next
  assume "mode AND S_IFMT = 4096 * k"
  then have "drop_bit 12 (mode AND S_IFMT) = drop_bit 12 (4096 * k)" by (simp only:)
  also have "\<dots> = k" by (simp add: drop_bit_eq_div)
  finally show "IFTODT mode = k" by (simp only: IFTODT_def)
qed

lemma posix_hint_agrees_with_mode:
  assumes "d_type d \<noteq> DT_UNKNOWN" "d_type d = IFTODT (st_mode st)"
  shows "isdir (PosixDirEntry p n d c) os = (st_mode st AND S_IFMT = S_IFDIR, PosixDirEntry p n d c, os)"
    "isfile (PosixDirEntry p n d c) os = (st_mode st AND S_IFMT = S_IFREG, PosixDirEntry p n d c, os)"
    "islink (PosixDirEntry p n d c) os = (st_mode st AND S_IFMT = S_IFLNK, PosixDirEntry p n d c, os)"
proof -
  have "IFTODT (st_mode st) = DT_DIR \<longleftrightarrow> st_mode st AND S_IFMT = S_IFDIR"
    "IFTODT (st_mode st) = DT_REG \<longleftrightarrow> st_mode st AND S_IFMT = S_IFREG"
    "IFTODT (st_mode st) = DT_LNK \<longleftrightarrow> st_mode st AND S_IFMT = S_IFLNK"
    by (simp_all only: IFTODT_eq DT_DIR_def DT_REG_def DT_LNK_def S_IFDIR_def S_IFREG_def
        S_IFLNK_def) simp_all
  with assms show "isdir (PosixDirEntry p n d c) os = (st_mode st AND S_IFMT = S_IFDIR, PosixDirEntry p n d c, os)"
    "isfile (PosixDirEntry p n d c) os = (st_mode st AND S_IFMT = S_IFREG, PosixDirEntry p n d c, os)"
    "islink (PosixDirEntry p n d c) os = (st_mode st AND S_IFMT = S_IFLNK, PosixDirEntry p n d c, os)"
    by (simp_all add: Let_def)
qed

subsection \<open>The names of a Win32 search\<close>






subsection \<open>The loop over the subdirectories\<close>

lemma after_events_simps [simp]:
  "after_events evs None = None"
  "after_events evs (Some ((evs', ex), os)) = Some ((evs @ evs', ex), os)"
  "after_events [] r = r"
  by (cases r; auto simp: after_events_def)+

lemma after_events_after_events [simp]:
  "after_events evs (after_events evs' r) = after_events (evs @ evs') r"
  by (cases r) (auto simp: after_events_def)


subsection \<open>The names that \<^verbatim>\<open>scandir\<close> yields\<close>



subsection \<open>Failure to open the directory\<close>



text \<open>
  The search of a directory in which nothing matches the pattern: the generator ends
  with no entry and no error, as the listing of an empty directory does.
\<close>

lemma no_match_yields_nothing:
  "platform os = Win32 \<Longrightarrow>
   find_tab os (join os p windows_wildcard) = Inl ERROR_FILE_NOT_FOUND \<Longrightarrow>
   scandir_list (scandir p) os = (([], None), os\<lparr>errno := ERROR_FILE_NOT_FOUND\<rparr>)"
  by (rule scandir_list_StopIteration [where g' = Finished])
     (simp add: scandir_def win_start_def FindFirstFile_def Let_def)

lemma no_match_os_scan:
  "fst (scandir_list (scandir ''d'') no_match_os) = ([], None)"
proof -
  have "platform no_match_os = Win32"
    "find_tab no_match_os (join no_match_os ''d'' windows_wildcard) = Inl ERROR_FILE_NOT_FOUND"
    by (simp_all add: no_match_os_def plain_os_def)
  then show ?thesis by (simp add: no_match_yields_nothing)
qed
subsection \<open>Classification from the type hint\<close>

text \<open>
  Claim C3, on two Win32 entries. For a directory that is a reparse point \<^verbatim>\<open>isdir\<close> and
  \<^verbatim>\<open>islink\<close> both answer \<^verbatim>\<open>True\<close> from the attributes, and the status record that
  \<^verbatim>\<open>lstat\<close> converts from the same attributes has the mode \<^verbatim>\<open>0o160777\<close>, whose type bits
  are neither those of a directory nor those of a link. For a file that is a reparse
  point \<^verbatim>\<open>isfile\<close> answers \<^verbatim>\<open>True\<close>, and the type bits of the mode \<^verbatim>\<open>0o120666\<close> of its
  status record are not those of a regular file. (On POSIX the three methods agree with
  the mode of the file whenever \<^verbatim>\<open>d_type\<close> is the type of that mode: lemma
  \<open>posix_hint_agrees_with_mode\<close>.)
\<close>

theorem reparse_point_hint_disagrees:
  "fst (isdir junction_entry (plain_os Win32)) \<and>
   fst (islink junction_entry (plain_os Win32)) \<and>
   fst (DirEntry_lstat junction_entry (plain_os Win32)) = Inr \<lparr>st_mode = 57855, st_size = 0\<rparr> \<and>
   (57855 :: int) AND S_IFMT \<noteq> S_IFDIR \<and> (57855 :: int) AND S_IFMT \<noteq> S_IFLNK \<and>
   fst (isfile file_link_entry (plain_os Win32)) \<and>
   fst (DirEntry_lstat file_link_entry (plain_os Win32)) = Inr \<lparr>st_mode = 41398, st_size = 0\<rparr> \<and>
   (41398 :: int) AND S_IFMT \<noteq> S_IFREG"
  by (simp add: junction_entry_def file_link_entry_def find_data_to_stat_def consts_defs Let_def)

subsection \<open>The edited list of subdirectory names\<close>

text \<open>
  Claim C4, on the tree \<^verbatim>\<open>root/{a/, link, f.txt}\<close> in top-down mode. A consumer that
  appends the name \<^verbatim>\<open>new\<close> to the list of the first triple gets that triple and then
  \<^verbatim>\<open>NameError\<close>: the walker looks the name up, does not find it, and calls the undefined
  \<^verbatim>\<open>TODO_DirEntry\<close>; it neither makes a fresh entry nor descends, and \<^verbatim>\<open>root/a\<close> is not
  walked either. A consumer that empties the list gets no triple for \<^verbatim>\<open>root/a\<close>, and one
  that leaves the list alone gets it.
\<close>

theorem added_name_raises:
  "map_option fst (walk 2 ''root'' True None False add_name (sample_os Posix)) =
     Some ([Triple ''root'' [''a''] [''link'', ''f.txt'']], Some (NameError ''TODO_DirEntry'')) \<and>
   map_option fst (walk 2 ''root'' True None False drop_all (sample_os Posix)) =
     Some ([Triple ''root'' [''a''] [''link'', ''f.txt'']], None) \<and>
   map_option fst (walk 2 ''root'' True None False keep_all (sample_os Posix)) =
     Some ([Triple ''root'' [''a''] [''link'', ''f.txt''], Triple ''root/a'' [] [''x.txt'']], None)"
  by code_simp

subsection \<open>Symbolic links to directories\<close>

text \<open>
  Claim C5, on the POSIX tree \<^verbatim>\<open>root/{a/, link -> a, f.txt}\<close>, where \<^verbatim>\<open>root/link\<close> opens as
  a directory with one file. With follow-links on, the walk lists \<^verbatim>\<open>link\<close> among the
  names that are not directories and yields no triple for \<^verbatim>\<open>root/link\<close>, exactly as with
  follow-links off: \<^verbatim>\<open>isdir\<close> answers for the link itself, so a link never reaches the
  list of directories, where the test of \<^verbatim>\<open>followlinks\<close> is made.
\<close>

theorem symlinked_directory_not_followed:
  "fst (scandir_list (scandir ''root/link'') (sample_os Posix)) =
     ([PosixDirEntry ''root/link'' ''x.txt'' \<lparr>d_type = 8, d_name = ''x.txt''\<rparr> None], None) \<and>
   map_option fst (walk 3 ''root'' True None True keep_all (sample_os Posix)) =
     Some ([Triple ''root'' [''a''] [''link'', ''f.txt''], Triple ''root/a'' [] [''x.txt'']], None) \<and>
   map_option fst (walk 3 ''root'' True None False keep_all (sample_os Posix)) =
     Some ([Triple ''root'' [''a''] [''link'', ''f.txt''], Triple ''root/a'' [] [''x.txt'']], None)"
  by code_simp

text \<open>
  The Win32 branch does what the claim says: \<^verbatim>\<open>link\<close> is listed among the directories,
  and its triple is yielded with follow-links on only.
\<close>

lemma win_symlinked_directory_followed:
  "map_option fst (walk 3 ''root'' True None False keep_all win_sample_os) =
     Some ([Triple ''root'' [''a'', ''link''] [''f.txt''],
            Triple (backslash_join ''root'' ''a'') [] [''x.txt'']], None) \<and>
   map_option fst (walk 3 ''root'' True None True keep_all win_sample_os) =
     Some ([Triple ''root'' [''a'', ''link''] [''f.txt''],
            Triple (backslash_join ''root'' ''a'') [] [''x.txt''],
            Triple (backslash_join ''root'' ''link'') [] [''x.txt'']], None)"
  by code_simp

subsection \<open>Classification without a type hint\<close>

text \<open>
  Claim C6. For an entry whose type hint is absent (the fallback class) or unknown
  (\<^verbatim>\<open>DT_UNKNOWN\<close>), each of \<^verbatim>\<open>isdir\<close>, \<^verbatim>\<open>isfile\<close> and \<^verbatim>\<open>islink\<close> puts the status query when
  the slot \<^verbatim>\<open>_lstat\<close> is unset. When the query succeeds the record is memoized in the
  entry and the answer is read off its mode bits; when it fails the answer is
  \<^verbatim>\<open>False\<close>, with nothing raised and nothing memoized, while \<^verbatim>\<open>lstat\<close> on the same
  failure raises \<^verbatim>\<open>OSError\<close> with the code and the path. With the slot set, the three
  methods answer from the memoized record and put no query.
\<close>

theorem unknown_hint_uses_lstat:
  assumes "\<not> has_hint self"
  shows
    "(lstat_cache self = None \<longrightarrow>
       (\<forall>st. lstat_tab os (lstat_count os) (entry_path self os) = Inr st \<longrightarrow>
          isdir self os = (st_mode st AND S_IFMT = S_IFDIR, set_lstat self st,
                           record_event (EvLstat (entry_path self os)) os) \<and>
          isfile self os = (st_mode st AND S_IFMT = S_IFREG, set_lstat self st,
                            record_event (EvLstat (entry_path self os)) os) \<and>
          islink self os = (st_mode st AND S_IFMT = S_IFLNK, set_lstat self st,
                            record_event (EvLstat (entry_path self os)) os) \<and>
          lstat_cache (set_lstat self st) = Some st) \<and>
       (\<forall>code. lstat_tab os (lstat_count os) (entry_path self os) = Inl code \<longrightarrow>
          isdir self os = (False, self, record_event (EvLstat (entry_path self os)) os) \<and>
          isfile self os = (False, self, record_event (EvLstat (entry_path self os)) os) \<and>
          islink self os = (False, self, record_event (EvLstat (entry_path self os)) os) \<and>
          DirEntry_lstat self os =
            (Inl (OSError code (entry_path self os)), self,
             record_event (EvLstat (entry_path self os)) os))) \<and>
     (\<forall>st. lstat_cache self = Some st \<longrightarrow>
        isdir self os = (st_mode st AND S_IFMT = S_IFDIR, self, os) \<and>
        isfile self os = (st_mode st AND S_IFMT = S_IFREG, self, os) \<and>
        islink self os = (st_mode st AND S_IFMT = S_IFLNK, self, os))"
proof -
  note nw = no_hint_not_Win [OF assms]
  note h = no_hint_by_lstat [OF assms]
  have ok: "by_lstat ifmt self os =
      (st_mode st AND S_IFMT = ifmt, set_lstat self st, record_event (EvLstat (entry_path self os)) os)"
    if "lstat_cache self = None" "lstat_tab os (lstat_count os) (entry_path self os) = Inr st"
    for ifmt st
    using that nw by (simp add: by_lstat_uncached lstat_Inr)
  have bad: "by_lstat ifmt self os = (False, self, record_event (EvLstat (entry_path self os)) os)"
    if "lstat_cache self = None" "lstat_tab os (lstat_count os) (entry_path self os) = Inl code"
    for ifmt code
    using that nw by (simp add: by_lstat_uncached lstat_Inl)
  have raise: "DirEntry_lstat self os =
      (Inl (OSError code (entry_path self os)), self, record_event (EvLstat (entry_path self os)) os)"
    if "lstat_cache self = None" "lstat_tab os (lstat_count os) (entry_path self os) = Inl code"
    for code
    using that nw by (simp add: DirEntry_lstat_uncached lstat_Inl)
  show ?thesis
    by (simp add: h ok bad raise by_lstat_cached)
qed

text \<open>
  An instance: a query that fails, the next one that finds a directory, and an answer
  from the memoized record.
\<close>

theorem unknown_hint_uses_lstat_witness:
  "isdir unknown_entry ((plain_os Posix)\<lparr>lstat_tab := appearing_file\<rparr>) =
     (False, unknown_entry,
      record_event (EvLstat ''d/f'') ((plain_os Posix)\<lparr>lstat_tab := appearing_file\<rparr>)) \<and>
   DirEntry_lstat unknown_entry ((plain_os Posix)\<lparr>lstat_tab := appearing_file\<rparr>) =
     (Inl (OSError 2 ''d/f''), unknown_entry,
      record_event (EvLstat ''d/f'') ((plain_os Posix)\<lparr>lstat_tab := appearing_file\<rparr>)) \<and>
   isdir unknown_entry
      (record_event (EvLstat ''d/f'') ((plain_os Posix)\<lparr>lstat_tab := appearing_file\<rparr>)) =
     (True, set_lstat unknown_entry \<lparr>st_mode = 16877, st_size = 0\<rparr>,
      record_event (EvLstat ''d/f'')
        (record_event (EvLstat ''d/f'') ((plain_os Posix)\<lparr>lstat_tab := appearing_file\<rparr>))) \<and>
   isfile (set_lstat unknown_entry \<lparr>st_mode = 16877, st_size = 0\<rparr>) (plain_os Posix) =
     (False, set_lstat unknown_entry \<lparr>st_mode = 16877, st_size = 0\<rparr>, plain_os Posix)"
proof -
  let ?os = "(plain_os Posix)\<lparr>lstat_tab := appearing_file\<rparr>"
  let ?os1 = "record_event (EvLstat ''d/f'') ?os"
  let ?e1 = "set_lstat unknown_entry \<lparr>st_mode = 16877, st_size = 0\<rparr>"
  have nh: "\<not> has_hint unknown_entry"
    by (simp add: has_hint_def unknown_entry_def DT_UNKNOWN_def)
  have c: "lstat_cache unknown_entry = None" by (simp add: unknown_entry_def)
  have p: "entry_path unknown_entry ?os = ''d/f''" "entry_path unknown_entry ?os1 = ''d/f''"
    by (simp_all add: entry_path_def unknown_entry_def plain_os_def join_d_f)
  have t0: "lstat_tab ?os (lstat_count ?os) ''d/f'' = Inl 2"
    by (simp add: plain_os_def appearing_file_def lstat_count_def)
  have t1: "lstat_tab ?os1 (lstat_count ?os1) ''d/f'' = Inr \<lparr>st_mode = 16877, st_size = 0\<rparr>"
    by (simp add: plain_os_def appearing_file_def lstat_count_def)
  have m: "(16877 :: int) AND S_IFMT = S_IFDIR" "(16877 :: int) AND S_IFMT \<noteq> S_IFREG"
    by (simp_all add: S_IFMT_def S_IFDIR_def S_IFREG_def)
  from unknown_hint_uses_lstat [OF nh, of ?os] c t0 p
  have 1: "isdir unknown_entry ?os = (False, unknown_entry, ?os1)"
    and 2: "DirEntry_lstat unknown_entry ?os = (Inl (OSError 2 ''d/f''), unknown_entry, ?os1)"
    by simp_all
  from unknown_hint_uses_lstat [OF nh, of ?os1] c t1 p m
  have 3: "isdir unknown_entry ?os1 = (True, ?e1, record_event (EvLstat ''d/f'') ?os1)"
    by simp
  have nh1: "\<not> has_hint ?e1" using nh by simp
  from unknown_hint_uses_lstat [OF nh1, of "plain_os Posix"] m
  have 4: "isfile ?e1 (plain_os Posix) = (False, ?e1, plain_os Posix)"
    by simp
  from 1 2 3 4 show ?thesis by blast
qed

subsection \<open>Memoization of the status record\<close>

text \<open>
  Claim C7, as amended. Once a call of \<^verbatim>\<open>lstat\<close> on an entry has returned a record, every
  later call returns that record and leaves the entry and the operating system as they
  are: no further query. The call that returned put one query to the operating system
  if the slot \<^verbatim>\<open>_lstat\<close> was unset and the entry is not a Win32 one, and none otherwise
  (a Win32 entry converts the data of its enumeration step).
\<close>

theorem lstat_memoized_after_success:
  assumes "DirEntry_lstat self os = (Inr st, self1, os1)"
  shows "lstat_calls k self1 os1 = (replicate k (Inr st), self1, os1) \<and>
         lstat_cache self1 = Some st \<and>
         lstat_count os1 =
           lstat_count os + (if is_WinDirEntry self \<or> lstat_cache self \<noteq> None then 0 else 1)"
  using DirEntry_lstat_succeeds(1,2) [OF assms] by (simp add: lstat_calls_cached)

text \<open>
  The claim as stated fails where the query fails: nothing is memoized then, and two
  calls of \<^verbatim>\<open>lstat\<close> on one entry put two queries.
\<close>

theorem lstat_twice_queries_twice:
  "lstat_count (plain_os Posix) = 0 \<and>
   fst (lstat_calls 2 unknown_entry (plain_os Posix)) =
     [Inl (OSError 2 ''d/f''), Inl (OSError 2 ''d/f'')] \<and>
   lstat_count (snd (snd (lstat_calls 2 unknown_entry (plain_os Posix)))) = 2"
  by (simp add: numeral_2_eq_2 unknown_entry_def plain_os_def lstat_def lstat_count_def
      record_event_def join_d_f)

text \<open>An instance of the amended claim: a successful call, then three more.\<close>

theorem lstat_memoized_after_success_witness:
  "DirEntry_lstat unknown_entry
      (record_event (EvLstat ''d/f'') ((plain_os Posix)\<lparr>lstat_tab := appearing_file\<rparr>)) =
     (Inr \<lparr>st_mode = 16877, st_size = 0\<rparr>,
      set_lstat unknown_entry \<lparr>st_mode = 16877, st_size = 0\<rparr>,
      record_event (EvLstat ''d/f'')
        (record_event (EvLstat ''d/f'') ((plain_os Posix)\<lparr>lstat_tab := appearing_file\<rparr>))) \<and>
   lstat_calls 3 (set_lstat unknown_entry \<lparr>st_mode = 16877, st_size = 0\<rparr>)
      (record_event (EvLstat ''d/f'')
        (record_event (EvLstat ''d/f'') ((plain_os Posix)\<lparr>lstat_tab := appearing_file\<rparr>))) =
     (replicate 3 (Inr \<lparr>st_mode = 16877, st_size = 0\<rparr>),
      set_lstat unknown_entry \<lparr>st_mode = 16877, st_size = 0\<rparr>,
      record_event (EvLstat ''d/f'')
        (record_event (EvLstat ''d/f'') ((plain_os Posix)\<lparr>lstat_tab := appearing_file\<rparr>)))"
proof -
  let ?os1 = "record_event (EvLstat ''d/f'') ((plain_os Posix)\<lparr>lstat_tab := appearing_file\<rparr>)"
  have h: "DirEntry_lstat unknown_entry ?os1 =
     (Inr \<lparr>st_mode = 16877, st_size = 0\<rparr>,
      set_lstat unknown_entry \<lparr>st_mode = 16877, st_size = 0\<rparr>,
      record_event (EvLstat ''d/f'') ?os1)"
    by (simp add: unknown_entry_def plain_os_def appearing_file_def lstat_def lstat_count_def
        join_d_f)
  from lstat_memoized_after_success [OF h, of 3] h show ?thesis by simp
qed

subsection \<open>Release of the scan handle\<close>

text \<open>
  Claim C8. Whatever the consumer does with the generator of a scan (any sequence of
  \<^verbatim>\<open>next\<close> and \<^verbatim>\<open>close\<close>), the scan opens at most one handle; the handles it has released
  are the handles it has opened, each once, apart from the one a suspended generator
  holds, which is open; a released handle is not open any more. After a \<^verbatim>\<open>next\<close> that
  ends the iteration (normal completion), a \<^verbatim>\<open>next\<close> that raises (failure of a native
  step, or of the open) and a \<^verbatim>\<open>close\<close> (abandonment), the generator is finished and
  holds nothing: the handle, if one was opened, has been released exactly once.
\<close>

theorem handle_released_once:
  assumes "drive ops (scandir p) os = (outs, g, os')"
  shows "\<exists>rs. opened (trace os') = opened (trace os) @ rs @ held g \<and>
              released (trace os') = released (trace os) @ rs \<and>
              length (rs @ held g) \<le> 1 \<and>
              set (held g) \<subseteq> set (handles os') \<and>
              set rs \<inter> set (handles os') = {} \<and>
              (outs \<noteq> [] \<and> \<not> suspends (last outs) \<longrightarrow> g = Finished \<and> held g = [])"
proof -
  have "gen_inv os (scandir p) os" by (simp add: scandir_def)
  from drive_inv [OF this assms]
  have i: "gen_inv os g os'" and f: "outs \<noteq> [] \<and> \<not> suspends (last outs) \<longrightarrow> g = Finished"
    by simp_all
  show ?thesis
  proof (cases g)
    case Finished
    with i obtain rs where "opened (trace os') = opened (trace os) @ rs"
      "released (trace os') = released (trace os) @ rs" "length rs \<le> 1"
      "set rs \<inter> set (handles os') = {}" by auto
    with Finished show ?thesis by (intro exI [of _ rs]) simp
  next
    case (NotStarted q)
    with i f show ?thesis by (intro exI [of _ "[]"]) simp
  next
    case (PosixSuspended q d)
    with i f show ?thesis by (intro exI [of _ "[]"]) simp
  next
    case (WinSuspended q h)
    with i f show ?thesis by (intro exI [of _ "[]"]) simp
  next
    case (OtherSuspended q ns)
    with i f show ?thesis by (intro exI [of _ "[]"]) simp
  qed
qed


text \<open>
  Instances: abandonment after two of three entries, normal completion, and a failing
  second step.
\<close>

theorem handle_released_once_witness:
  "map suspends (fst (drive [Next, Next, Close] (scandir ''root'') (sample_os Posix))) =
     [True, True, False] \<and>
   opened (trace (snd (snd (drive [Next, Next, Close] (scandir ''root'') (sample_os Posix))))) = [1] \<and>
   released (trace (snd (snd (drive [Next, Next, Close] (scandir ''root'') (sample_os Posix))))) = [1] \<and>
   map suspends (fst (drive [Next, Next, Next, Next] (scandir ''root'') (sample_os Posix))) =
     [True, True, True, False] \<and>
   released (trace (snd (snd (drive [Next, Next, Next, Next] (scandir ''root'') (sample_os Posix))))) = [1] \<and>
   fst (drive [Next, Next] (scandir ''root'') failing_os) =
     [Got (Yield (PosixDirEntry ''root'' ''f.txt'' \<lparr>d_type = 8, d_name = ''f.txt''\<rparr> None)),
      Got (Raise (OSError 5 ''root''))] \<and>
   released (trace (snd (snd (drive [Next, Next] (scandir ''root'') failing_os)))) = [1]"
proof -
  let ?A = "drive [Next, Next, Close] (scandir ''root'') (sample_os Posix)"
  let ?B = "drive [Next, Next, Next, Next] (scandir ''root'') (sample_os Posix)"
  let ?C = "drive [Next, Next] (scandir ''root'') failing_os"
  have t: "trace (sample_os Posix) = []" "trace failing_os = []"
    by (simp_all add: sample_os_def failing_os_def plain_os_def)
  have a: "map suspends (fst ?A) = [True, True, False]" by code_simp
  have b: "map suspends (fst ?B) = [True, True, True, False]" by code_simp
  have c: "fst ?C =
     [Got (Yield (PosixDirEntry ''root'' ''f.txt'' \<lparr>d_type = 8, d_name = ''f.txt''\<rparr> None)),
      Got (Raise (OSError 5 ''root''))]" by code_simp
  have oa: "opened (trace (snd (snd ?A))) = [1]" by code_simp
  have ob: "opened (trace (snd (snd ?B))) = [1]" by code_simp
  have oc: "opened (trace (snd (snd ?C))) = [1]" by code_simp
  have la: "fst ?A \<noteq> [] \<and> \<not> suspends (last (fst ?A))"
    using a by (cases "fst ?A" rule: rev_cases) auto
  have lb: "fst ?B \<noteq> [] \<and> \<not> suspends (last (fst ?B))"
    using b by (cases "fst ?B" rule: rev_cases) auto
  have lc: "fst ?C \<noteq> [] \<and> \<not> suspends (last (fst ?C))"
    using c by simp
  have "released (trace (snd (snd ?A))) = opened (trace (snd (snd ?A)))"
    using handle_released_once [of "[Next, Next, Close]" "''root''" "sample_os Posix"
        "fst ?A" "fst (snd ?A)" "snd (snd ?A)"] la t
    by auto
  moreover have "released (trace (snd (snd ?B))) = opened (trace (snd (snd ?B)))"
    using handle_released_once [of "[Next, Next, Next, Next]" "''root''" "sample_os Posix"
        "fst ?B" "fst (snd ?B)" "snd (snd ?B)"] lb t
    by auto
  moreover have "released (trace (snd (snd ?C))) = opened (trace (snd (snd ?C)))"
    using handle_released_once [of "[Next, Next]" "''root''" failing_os
        "fst ?C" "fst (snd ?C)" "snd (snd ?C)"] lc t
    by auto
  ultimately show ?thesis using a b c oa ob oc by simp
qed

subsection \<open>Scan failures during a walk\<close>



subsection \<open>Failed status queries\<close>

text \<open>
  Claim C10. A failed status query is not memoized. When \<^verbatim>\<open>lstat\<close> on an entry raises,
  the entry is unchanged and its slot \<^verbatim>\<open>_lstat\<close> is still unset, and the query was put to
  the operating system. So in every later state of the operating system a call of
  \<^verbatim>\<open>lstat\<close> on the entry puts a fresh query and returns what the operating system answers
  then (the record, which is memoized, or the error of that query), and so does
  \<^verbatim>\<open>isdir\<close> on an entry without a definite type.
\<close>

theorem failed_lstat_not_memoized:
  assumes "DirEntry_lstat self os = (Inl ex, self', os')"
  shows "self' = self \<and> lstat_cache self' = None \<and>
         os' = record_event (EvLstat (entry_path self os)) os \<and>
         (\<forall>os2. DirEntry_lstat self' os2 =
            (case lstat (entry_path self' os2) os2 of
               (Inl ex2, os3) \<Rightarrow> (Inl ex2, self', os3)
             | (Inr st, os3) \<Rightarrow> (Inr st, set_lstat self' st, os3))) \<and>
         (\<forall>os2. \<not> has_hint self' \<longrightarrow> isdir self' os2 =
            (case lstat (entry_path self' os2) os2 of
               (Inl ex2, os3) \<Rightarrow> (False, self', os3)
             | (Inr st, os3) \<Rightarrow> (st_mode st AND S_IFMT = S_IFDIR, set_lstat self' st, os3)))"
proof -
  note f = DirEntry_lstat_fails [OF assms]
  have a: "DirEntry_lstat self os2 =
            (case lstat (entry_path self os2) os2 of
               (Inl ex2, os3) \<Rightarrow> (Inl ex2, self, os3)
             | (Inr st, os3) \<Rightarrow> (Inr st, set_lstat self st, os3))" for os2
    using f(1,2) by (rule DirEntry_lstat_uncached)
  have b: "isdir self os2 =
            (case lstat (entry_path self os2) os2 of
               (Inl ex2, os3) \<Rightarrow> (False, self, os3)
             | (Inr st, os3) \<Rightarrow> (st_mode st AND S_IFMT = S_IFDIR, set_lstat self st, os3))"
    if "\<not> has_hint self" for os2
    using that by (simp add: no_hint_by_lstat by_lstat_def a split: prod.splits sum.splits)
  show ?thesis unfolding f(3) using f(1,4) a b by simp
qed


text \<open>
  An instance: the first query fails with code 2, the second finds a directory.
\<close>

theorem failed_lstat_not_memoized_witness:
  "fst (DirEntry_lstat unknown_entry ((plain_os Posix)\<lparr>lstat_tab := appearing_file\<rparr>)) =
     Inl (OSError 2 ''d/f'') \<and>
   fst (DirEntry_lstat unknown_entry
     (record_event (EvLstat ''d/f'') ((plain_os Posix)\<lparr>lstat_tab := appearing_file\<rparr>))) =
     Inr \<lparr>st_mode = 16877, st_size = 0\<rparr> \<and>
   fst (isdir unknown_entry
     (record_event (EvLstat ''d/f'') ((plain_os Posix)\<lparr>lstat_tab := appearing_file\<rparr>)))"
proof -
  let ?os = "(plain_os Posix)\<lparr>lstat_tab := appearing_file\<rparr>"
  let ?os1 = "record_event (EvLstat ''d/f'') ?os"
  have h: "DirEntry_lstat unknown_entry ?os = (Inl (OSError 2 ''d/f''), unknown_entry, ?os1)"
    by (simp add: unknown_entry_def plain_os_def appearing_file_def lstat_def lstat_count_def
        join_d_f)
  have nh: "\<not> has_hint unknown_entry"
    by (simp add: has_hint_def unknown_entry_def DT_UNKNOWN_def)
  have p: "entry_path unknown_entry ?os1 = ''d/f''"
    by (simp add: entry_path_def unknown_entry_def plain_os_def join_d_f)
  have l: "lstat ''d/f'' ?os1 =
      (Inr \<lparr>st_mode = 16877, st_size = 0\<rparr>, record_event (EvLstat ''d/f'') ?os1)"
    by (simp add: lstat_def plain_os_def appearing_file_def lstat_count_def)
  from failed_lstat_not_memoized [OF h] nh
  have "DirEntry_lstat unknown_entry ?os1 =
          (case lstat (entry_path unknown_entry ?os1) ?os1 of
             (Inl ex2, os3) \<Rightarrow> (Inl ex2, unknown_entry, os3)
           | (Inr st, os3) \<Rightarrow> (Inr st, set_lstat unknown_entry st, os3))"
    and "isdir unknown_entry ?os1 =
          (case lstat (entry_path unknown_entry ?os1) ?os1 of
             (Inl ex2, os3) \<Rightarrow> (False, unknown_entry, os3)
           | (Inr st, os3) \<Rightarrow> (st_mode st AND S_IFMT = S_IFDIR, set_lstat unknown_entry st, os3))"
    by blast+
  then show ?thesis unfolding p l using h by (simp add: S_IFMT_def S_IFDIR_def)
qed

end
